theory Spec2Isabelle
  imports Complex_Main "HOL-Library.Char_ord" "HOL-Library.List_Lexorder"
begin

text \<open>
  Two scripts of the repository are embedded here. The version scraper is a function of
  the document it fetched, its flags and the process environment. The loop that
  dismisses the screens shown after the setup wizard is a function of a page driver, given
  as a record of operations on an opaque world, and of the screen catalog; every call it
  makes on the page is recorded, in order, in its state.
\<close>

section \<open>The version scraper (scripts/scrape-dsm-version.py)\<close>

subsection \<open>Parsed JSON and the Python operations the script applies to it\<close>

text \<open>
  The value \<open>json.loads\<close> returns. An object is the list of its items in insertion order
  (keys distinct, as in a Python dict); characters are code points below 256.
\<close>

datatype json =
    JNull
  | JBool bool
  | JInt int
  | JFloat rat
  | JStr string
  | JArr "json list"
  | JObj "(string \<times> json) list"

datatype py_exc = KeyError | TypeError | IndexError | OSError

text \<open>Python truthiness, as \<open>if not x\<close> tests it.\<close>

fun truthy :: "json \<Rightarrow> bool" where
  "truthy JNull = False"
| "truthy (JBool b) = b"
| "truthy (JInt i) = (i \<noteq> 0)"
| "truthy (JFloat r) = (r \<noteq> 0)"
| "truthy (JStr s) = (s \<noteq> [])"
| "truthy (JArr xs) = (xs \<noteq> [])"
| "truthy (JObj kvs) = (kvs \<noteq> [])"

text \<open>
  Sequence indexing \<open>xs[i]\<close>: positions \<open>0 .. len - 1\<close> from the front, \<open>-1 .. -len\<close>
  from the back, IndexError elsewhere.
\<close>

definition py_index :: "'a list \<Rightarrow> int \<Rightarrow> py_exc + 'a" where
  "py_index xs i =
     (if 0 \<le> i \<and> i < int (length xs) then Inr (xs ! nat i)
      else if i < 0 \<and> - i \<le> int (length xs) then Inr (xs ! nat (int (length xs) + i))
      else Inl IndexError)"

text \<open>
  The subscript \<open>c[k]\<close>. A dict looks a hashable key up (its keys are strings, so any
  other hashable key is absent) and rejects a list or a dict as unhashable; a list and a
  string take an integer (a bool is an integer); nothing else can be subscripted.
\<close>

definition py_getitem :: "json \<Rightarrow> json \<Rightarrow> py_exc + json" where
  "py_getitem c k =
     (case c of
        JObj kvs \<Rightarrow>
          (case k of
             JStr s \<Rightarrow> (case map_of kvs s of None \<Rightarrow> Inl KeyError | Some v \<Rightarrow> Inr v)
           | JArr ks \<Rightarrow> Inl TypeError
           | JObj ks \<Rightarrow> Inl TypeError
           | _ \<Rightarrow> Inl KeyError)
      | JArr xs \<Rightarrow>
          (case k of
             JInt i \<Rightarrow> py_index xs i
           | JBool b \<Rightarrow> py_index xs (if b then 1 else 0)
           | _ \<Rightarrow> Inl TypeError)
      | JStr s \<Rightarrow>
          (case k of
             JInt i \<Rightarrow> map_sum id (\<lambda>ch. JStr [ch]) (py_index s i)
           | JBool b \<Rightarrow> map_sum id (\<lambda>ch. JStr [ch]) (py_index s (if b then 1 else 0))
           | _ \<Rightarrow> Inl TypeError)
      | _ \<Rightarrow> Inl TypeError)"

text \<open>What \<open>for ver in ver_list\<close> iterates over.\<close>

fun py_iter :: "json \<Rightarrow> py_exc + json list" where
  "py_iter (JArr xs) = Inr xs"
| "py_iter (JObj kvs) = Inr (map (\<lambda>kv. JStr (fst kv)) kvs)"
| "py_iter (JStr s) = Inr (map (\<lambda>c. JStr [c]) s)"
| "py_iter j = Inl TypeError"

subsection \<open>The pattern \<open>(\d+\.\d+\.\d+)-(\d+)\<close>\<close>

text \<open>
  Among code points below 256 the class \<open>\d\<close> is the ten ASCII digits. A greedy \<open>\d+\<close>
  followed by a literal that is not a digit can only match the whole run of digits, so
  matching at a position is deterministic; \<open>re.search\<close> takes the leftmost position
  where the pattern matches.
\<close>

definition is_digit :: "char \<Rightarrow> bool" where
  "is_digit c = (c \<in> set ''0123456789'')"

definition digits1 :: "string \<Rightarrow> (string \<times> string) option" where
  "digits1 s =
     (let d = takeWhile is_digit s
      in if d = [] then None else Some (d, dropWhile is_digit s))"

definition lit :: "char \<Rightarrow> string \<Rightarrow> string option" where
  "lit c s = (case s of [] \<Rightarrow> None | x # r \<Rightarrow> if x = c then Some r else None)"

text \<open>The pattern anchored at the head of the string: the two groups, when it matches.\<close>

definition and_then :: "'a option \<Rightarrow> ('a \<Rightarrow> 'b option) \<Rightarrow> 'b option" where
  "and_then r f = (case r of None \<Rightarrow> None | Some x \<Rightarrow> f x)"

definition match_here :: "string \<Rightarrow> (string \<times> string) option" where
  "match_here s =
     and_then (digits1 s) (\<lambda>(a, s1).
     and_then (lit (CHR ''.'') s1) (\<lambda>s2.
     and_then (digits1 s2) (\<lambda>(b, s3).
     and_then (lit (CHR ''.'') s3) (\<lambda>s4.
     and_then (digits1 s4) (\<lambda>(c, s5).
     and_then (lit (CHR ''-'') s5) (\<lambda>s6.
     and_then (digits1 s6) (\<lambda>(d, s7).
       Some (a @ ''.'' @ b @ ''.'' @ c, d))))))))"

fun re_search :: "string \<Rightarrow> (string \<times> string) option" where
  "re_search [] = match_here []"
| "re_search (c # cs) =
     (case match_here (c # cs) of Some m \<Rightarrow> Some m | None \<Rightarrow> re_search cs)"

subsection \<open>scrape_dsm_version\<close>

text \<open>
  The loop over \<open>verList\<close>: the first entry whose \<open>value\<close> is not \<open>all_versions\<close>. A
  failing subscript is not caught here.
\<close>

fun find_latest_series :: "json list \<Rightarrow> py_exc + json option" where
  "find_latest_series [] = Inr None"
| "find_latest_series (ver # rest) =
     (case py_getitem ver (JStr ''value'') of
        Inl e \<Rightarrow> Inl e
      | Inr v \<Rightarrow> if v \<noteq> JStr ''all_versions'' then Inr (Some v)
                 else find_latest_series rest)"

text \<open>An exception that no handler catches passes to the caller.\<close>

definition on_value :: "'e + 'a \<Rightarrow> ('a \<Rightarrow> 'e + 'b) \<Rightarrow> 'e + 'b" where
  "on_value r f = (case r of Inl e \<Rightarrow> Inl e | Inr x \<Rightarrow> f x)"

text \<open>
  The first \<open>try\<close> block: \<open>data["info"]["verList"]\<close> and
  \<open>data["info"]["versions"]["DSM"]\<close>; it catches KeyError and TypeError, the only
  exceptions these subscripts raise, and the function returns \<open>None\<close> then.
\<close>

definition read_lists :: "json \<Rightarrow> (json \<times> json) option" where
  "read_lists data =
     (case on_value (py_getitem data (JStr ''info'')) (\<lambda>info.
           on_value (py_getitem info (JStr ''verList'')) (\<lambda>ver_list.
           on_value (py_getitem data (JStr ''info'')) (\<lambda>info2.
           on_value (py_getitem info2 (JStr ''versions'')) (\<lambda>vs.
           on_value (py_getitem vs (JStr ''DSM'')) (\<lambda>versions_dict.
             Inr (ver_list, versions_dict))))))
      of Inl e \<Rightarrow> None | Inr r \<Rightarrow> Some r)"

text \<open>
  From \<open>versions = versions_dict[latest_series]\<close> on: only a KeyError of that subscript
  is caught. \<open>re.search\<close> raises TypeError on anything but a string.
\<close>

definition parse_version :: "json \<Rightarrow> py_exc + (string \<times> string) option" where
  "parse_version vstr =
     (case vstr of
        JStr latest_version_str \<Rightarrow>
          (case re_search latest_version_str of
             None \<Rightarrow> Inr None
           | Some (version, build) \<Rightarrow> Inr (Some (version, build)))
      | _ \<Rightarrow> Inl TypeError)"

definition latest_of_series :: "json \<Rightarrow> json \<Rightarrow> py_exc + (string \<times> string) option" where
  "latest_of_series versions_dict latest_series =
     (case py_getitem versions_dict latest_series of
        Inl e \<Rightarrow> (if e = KeyError then Inr None else Inl e)
      | Inr versions \<Rightarrow>
          if \<not> truthy versions then Inr None
          else
            on_value (py_getitem versions (JInt 0)) (\<lambda>entry.
            on_value (py_getitem entry (JStr ''version'')) parse_version))"

text \<open>
  The function takes what the fetch produced: \<open>None\<close> when \<open>urlopen\<close>, the decoding or
  \<open>json.loads\<close> raised (the script returns \<open>None\<close> then), the parsed document
  otherwise. It returns \<open>Inr None\<close> where the script returns \<open>None\<close>, \<open>Inr (Some
  (version, build))\<close> where it returns the dict, and \<open>Inl e\<close> where an exception leaves
  the function uncaught. The messages it writes to standard error are not modelled.
\<close>

definition scrape_dsm_version :: "json option \<Rightarrow> py_exc + (string \<times> string) option" where
  "scrape_dsm_version fetched =
     (case fetched of
        None \<Rightarrow> Inr None
      | Some data \<Rightarrow>
          (case read_lists data of
             None \<Rightarrow> Inr None
           | Some (ver_list, versions_dict) \<Rightarrow>
               on_value (py_iter ver_list) (\<lambda>vers.
               on_value (find_latest_series vers) (\<lambda>found.
                 (case found of
                    None \<Rightarrow> Inr None
                  | Some latest_series \<Rightarrow>
                      if \<not> truthy latest_series then Inr None
                      else latest_of_series versions_dict latest_series)))))"

subsection \<open>update_version_file and main\<close>

definition nl :: char where
  "nl = CHR 0x0A"

definition dq :: char where
  "dq = CHR 0x22"

definition bsl :: char where
  "bsl = CHR 0x5C"

text \<open>
  \<open>json.dumps\<close> with its default \<open>ensure_ascii\<close>: a string between double quotes, with
  the short escapes for quote, backslash and five control characters, and \<open>\u00xx\<close>
  (lower-case hexadecimal) for every other character outside space .. tilde.
\<close>

definition hex_digit :: "nat \<Rightarrow> char" where
  "hex_digit n = ''0123456789abcdef'' ! (n mod 16)"

definition json_escape_char :: "char \<Rightarrow> string" where
  "json_escape_char c =
     (if c = bsl then [bsl, bsl]
      else if c = dq then [bsl, dq]
      else if c = CHR 0x08 then [bsl, CHR ''b'']
      else if c = CHR 0x0C then [bsl, CHR ''f'']
      else if c = CHR 0x0A then [bsl, CHR ''n'']
      else if c = CHR 0x0D then [bsl, CHR ''r'']
      else if c = CHR 0x09 then [bsl, CHR ''t'']
      else if CHR '' '' \<le> c \<and> c \<le> CHR ''~'' then [c]
      else [bsl, CHR ''u'', CHR ''0'', CHR ''0'',
            hex_digit (of_char c div 16), hex_digit (of_char c mod 16)])"

definition json_quote :: "string \<Rightarrow> string" where
  "json_quote s = [dq] @ concat (map json_escape_char s) @ [dq]"

text \<open>
  \<open>json.dumps(output, indent=2)\<close> for a dict of strings: one item per line, indented by
  two spaces, \<open>": "\<close> between key and value, \<open>","\<close> at the end of every line but the
  last; an empty dict is \<open>{}\<close>.
\<close>

fun join_lines :: "string list \<Rightarrow> string" where
  "join_lines [] = []"
| "join_lines [x] = x"
| "join_lines (x # y # r) = x @ '','' @ [nl] @ join_lines (y # r)"

definition json_dumps_indent2 :: "(string \<times> string) list \<Rightarrow> string" where
  "json_dumps_indent2 items =
     (if items = [] then ''{}''
      else ''{'' @ [nl]
           @ join_lines (map (\<lambda>(k, v). ''  '' @ json_quote k @ '': '' @ json_quote v) items)
           @ [nl] @ ''}'')"

record args =
  update_file :: bool
  args_json :: bool

text \<open>
  The process environment: \<open>GITHUB_OUTPUT\<close> as \<open>os.getenv\<close> reads it, the file each
  path names (two spellings of a path, such as \<open>dsm-version.sh\<close> and
  \<open>./dsm-version.sh\<close>, name one file), which paths \<open>open\<close> can open for writing (it
  raises OSError on the others), and the contents of the files.
\<close>

type_synonym file_id = nat

record os_env =
  github_output :: "string option"
  file_of :: "string \<Rightarrow> file_id"
  can_write :: "string \<Rightarrow> bool"
  files :: "file_id \<rightharpoonup> string"

definition version_file_content :: "string \<Rightarrow> string \<Rightarrow> string" where
  "version_file_content version build =
     ''#!/usr/bin/env bash'' @ [nl]
     @ ''# DSM version configuration'' @ [nl]
     @ ''# These variables are sourced by build-image.sh and GitHub Actions'' @ [nl]
     @ ''export DSM_VERSION='' @ [dq] @ version @ [dq] @ [nl]
     @ ''export DSM_BUILD='' @ [dq] @ build @ [dq] @ [nl]"

definition update_version_file ::
  "string \<Rightarrow> string \<Rightarrow> string \<Rightarrow> os_env \<Rightarrow> py_exc + os_env" where
  "update_version_file version build file_path env =
     (if can_write env file_path
      then Inr (env\<lparr>files := (files env)(file_of env file_path \<mapsto>
                  version_file_content version build)\<rparr>)
      else Inl OSError)"

text \<open>The block under \<open>if github_output:\<close>: two lines appended to that file.\<close>

definition write_github_output :: "string \<Rightarrow> string \<Rightarrow> os_env \<Rightarrow> py_exc + os_env" where
  "write_github_output version build env =
     (case github_output env of
        None \<Rightarrow> Inr env
      | Some path \<Rightarrow>
          if path = [] then Inr env
          else if can_write env path
          then Inr (env\<lparr>files := (files env)(file_of env path \<mapsto>
                 (case files env (file_of env path) of None \<Rightarrow> [] | Some old \<Rightarrow> old)
                 @ ''version='' @ version @ [nl] @ ''build='' @ build @ [nl])\<rparr>)
          else Inl OSError)"

datatype exit_status = Exit int | Uncaught py_exc

record run =
  status :: exit_status
  stdout :: string
  files_after :: "file_id \<rightharpoonup> string"

definition main :: "args \<Rightarrow> os_env \<Rightarrow> json option \<Rightarrow> run" where
  "main a env fetched =
     (case scrape_dsm_version fetched of
        Inl e \<Rightarrow> \<lparr>status = Uncaught e, stdout = [], files_after = files env\<rparr>
      | Inr None \<Rightarrow> \<lparr>status = Exit 1, stdout = [], files_after = files env\<rparr>
      | Inr (Some (version, build)) \<Rightarrow>
          (case (if update_file a
                 then update_version_file version build ''dsm-version.sh'' env
                 else Inr env) of
             Inl e \<Rightarrow> \<lparr>status = Uncaught e, stdout = [], files_after = files env\<rparr>
           | Inr env1 \<Rightarrow>
               (case write_github_output version build env1 of
                  Inl e \<Rightarrow> \<lparr>status = Uncaught e, stdout = [], files_after = files env1\<rparr>
                | Inr env2 \<Rightarrow>
                    \<lparr>status = Exit 0,
                     stdout =
                       (if args_json a \<or> \<not> update_file a
                        then json_dumps_indent2
                               [(''version'', version), (''build'', build),
                                (''full_version'', version @ ''-'' @ build)] @ [nl]
                        else []),
                     files_after = files env2\<rparr>)))"

section \<open>The post-wizard screen loop (provision-dsm.py, handle_post_wizard)\<close>

subsection \<open>The page driver\<close>

text \<open>
  The two \<open>except\<close> clauses around the handling of one screen tell Playwright's
  TimeoutError from every other exception; the model keeps that distinction only.
\<close>

datatype page_exc = PlaywrightTimeoutError | OtherException

datatype wait_state = StateVisible | StateHidden

text \<open>
  The live page and the clock, as operations on a state of the world \<open>'w\<close> that the loop
  cannot see into. An awaited call returns \<open>None\<close> when it returns normally and
  \<open>Some e\<close> when it raises \<open>e\<close>, together with the world it leaves behind. Selectors are
  strings; timeouts are in milliseconds, as the script passes them.
\<close>

record 'w page =
  clock :: "'w \<Rightarrow> real"
  sleep :: "real \<Rightarrow> 'w \<Rightarrow> 'w"
  is_visible :: "string \<Rightarrow> 'w \<Rightarrow> (page_exc + bool) \<times> 'w"
  wait_for :: "string \<Rightarrow> wait_state \<Rightarrow> nat \<Rightarrow> 'w \<Rightarrow> page_exc option \<times> 'w"
  click :: "string \<Rightarrow> 'w \<Rightarrow> page_exc option \<times> 'w"
  wait_for_load_state :: "string \<Rightarrow> nat \<Rightarrow> 'w \<Rightarrow> page_exc option \<times> 'w"

text \<open>Sequencing of awaited calls: the first exception ends the sequence.\<close>

definition then_do ::
  "('s \<Rightarrow> page_exc option \<times> 's) \<Rightarrow> ('s \<Rightarrow> page_exc option \<times> 's) \<Rightarrow> 's \<Rightarrow> page_exc option \<times> 's" where
  "then_do f g s = (case f s of (None, s') \<Rightarrow> g s' | (Some e, s') \<Rightarrow> (Some e, s'))"

subsection \<open>The screen catalog\<close>

datatype screen_action = ConfigureUpdatesScreen | CloseNotificationSetup

definition configure_updates_screen :: "'w page \<Rightarrow> 'w \<Rightarrow> page_exc option \<times> 'w" where
  "configure_updates_screen P =
     then_do (click P ''div.v-radio-wrapper[syno-id='welcome-app-select-update-radio-notify']'')
             (\<lambda>w. (None, sleep P (1 / 2) w))"

definition close_notification_setup :: "'w page \<Rightarrow> 'w \<Rightarrow> page_exc option \<times> 'w" where
  "close_notification_setup P =
     (let panel = ''div.v-notification-panel:has(div.v-notification-title:text('Notification Setup'))''
      in then_do (wait_for P panel StateVisible 10000)
        (then_do (click P (panel @ '' >> i.close-btn.window-tool-close''))
                 (\<lambda>w. (None, sleep P (1 / 2) w))))"

fun run_action :: "'w page \<Rightarrow> screen_action \<Rightarrow> 'w \<Rightarrow> page_exc option \<times> 'w" where
  "run_action P ConfigureUpdatesScreen = configure_updates_screen P"
| "run_action P CloseNotificationSetup = close_notification_setup P"

record screen =
  name :: string
  screen_identifier :: string
  action :: "screen_action option"
  button :: "string option"

definition wizard_screens :: "screen list" where
  "wizard_screens =
     [\<lparr>name = ''Update Options'',
       screen_identifier = ''div.welcome-step-title >> text=/Select an update option/'',
       action = Some ConfigureUpdatesScreen,
       button = Some ''button.v-btn-main''\<rparr>,
      \<lparr>name = ''Synology Account'',
       screen_identifier = ''div.welcome-step-title >> text=/Create a Synology Account/'',
       action = None,
       button = Some ''button[syno-id='welcome-app-wizard-fbar-back']''\<rparr>,
      \<lparr>name = ''User Experience'',
       screen_identifier = ''div.welcome-step-title >> text=/Opt-in for a better user experience/'',
       action = None,
       button = Some ''button[syno-id='welcome-app-wizard-fbar-next']''\<rparr>,
      \<lparr>name = ''File Access Promotion'',
       screen_identifier = ''div.title >> text=/Securely Access and Share Files From Anywhere/'',
       action = None,
       button = Some ''button[syno-id='syno-promotion-preinstall-btn-skip']''\<rparr>,
      \<lparr>name = ''2FA Promotion'',
       screen_identifier = ''div.title >> text=/Enable 2-Factor Authentication '' @ [bsl] @ ''(2FA''
                    @ [bsl] @ '')/'',
       action = None,
       button = Some ''button[syno-id='syno-promotion-ss-btn-skip']''\<rparr>,
      \<lparr>name = ''Adaptive MFA Promotion'',
       screen_identifier = ''div.title >> text=/Protect your account with Adaptive MFA/'',
       action = None,
       button = Some ''button[syno-id='syno-promotion-manually-amfa-btn-give-up']''\<rparr>,
      \<lparr>name = ''MFA Warning Confirmation'',
       screen_identifier = ''div.dialog-content >> text=/We strongly recommend enabling 2FA or Adaptive MFA/'',
       action = None,
       button = Some ''button[syno-id='promotion-app-window-msgbox-fbar-commit']''\<rparr>,
      \<lparr>name = ''Notification Setup'',
       screen_identifier = ''div.v-notification-title >> text=/Notification Setup/'',
       action = Some CloseNotificationSetup,
       button = None\<rparr>,
      \<lparr>name = ''Notification Setup Reminder'',
       screen_identifier = ''div.dialog-content >> text=/You can enable notifications later/'',
       action = None,
       button = Some ''button[syno-id='window-manager-msg-box-fbar-commit']''\<rparr>]"

definition all_screen_names :: "screen list \<Rightarrow> string set" where
  "all_screen_names screens = set (map name screens)"

subsection \<open>The loop state and the record of what the loop did\<close>

text \<open>
  One event per step of the handling, in the order the script performs them: the insertion
  into \<open>screens_seen\<close>, and each awaited call on the page with the screen it was made
  for and how it returned.
\<close>

datatype event =
    Visible string "page_exc + bool"
  | SeenAdd string
  | ActionRun string "page_exc option"
  | ButtonWait string "page_exc option"
  | ButtonClick string "page_exc option"
  | HiddenWait string "page_exc option"
  | LoadWait string "page_exc option"

record 'w loop_state =
  screens_seen :: "string set"
  consecutive_no_match :: nat
  screen_found :: bool
  world :: 'w
  trace :: "event list"

definition call ::
  "('w \<Rightarrow> page_exc option \<times> 'w) \<Rightarrow> (page_exc option \<Rightarrow> event) \<Rightarrow> 'w loop_state
     \<Rightarrow> page_exc option \<times> 'w loop_state" where
  "call f ev st =
     (case f (world st) of (r, w') \<Rightarrow> (r, st\<lparr>world := w', trace := trace st @ [ev r]\<rparr>))"

definition skip :: "'s \<Rightarrow> page_exc option \<times> 's" where
  "skip s = (None, s)"

subsection \<open>Handling one screen\<close>

text \<open>
  The statements after the \<open>continue\<close> of an already processed screen: mark the screen,
  run its action when it has one, wait for its button and click it when it has one, wait
  for the identifier to disappear, wait for the network to be idle.
\<close>

definition dismiss_screen ::
  "'w page \<Rightarrow> screen \<Rightarrow> 'w loop_state \<Rightarrow> page_exc option \<times> 'w loop_state" where
  "dismiss_screen P s =
     then_do (\<lambda>st. (None, st\<lparr>screens_seen := insert (name s) (screens_seen st),
                             trace := trace st @ [SeenAdd (name s)]\<rparr>))
    (then_do (case action s of
                None \<Rightarrow> skip
              | Some act \<Rightarrow> call (run_action P act) (ActionRun (name s)))
    (then_do (case button s of
                None \<Rightarrow> skip
              | Some b \<Rightarrow>
                  then_do (call (wait_for P b StateVisible 10000) (ButtonWait (name s)))
                          (call (click P b) (ButtonClick (name s))))
    (then_do (call (wait_for P (screen_identifier s) StateHidden 30000) (HiddenWait (name s)))
             (call (wait_for_load_state P ''networkidle'' 30000) (LoadWait (name s))))))"

datatype flow = Continue | Break

text \<open>
  The body of the \<open>try\<close> for one catalog entry. \<open>Inr Continue\<close> is reaching the end of
  the body or its \<open>continue\<close>, \<open>Inr Break\<close> its \<open>break\<close>, \<open>Inl e\<close> an exception
  leaving the body.
\<close>

definition try_screen ::
  "'w page \<Rightarrow> screen \<Rightarrow> 'w loop_state \<Rightarrow> (page_exc + flow) \<times> 'w loop_state" where
  "try_screen P s st =
     (case is_visible P (screen_identifier s) (world st) of
        (r, w') \<Rightarrow>
          (let st1 = st\<lparr>world := w', trace := trace st @ [Visible (name s) r]\<rparr>
           in case r of
                Inl e \<Rightarrow> (Inl e, st1)
              | Inr v \<Rightarrow>
                  if v then
                    (let st2 = st1\<lparr>screen_found := True\<rparr>
                     in if name s \<in> screens_seen st2 then (Inr Continue, st2)
                        else (case dismiss_screen P s st2 of
                                (Some e, st3) \<Rightarrow> (Inl e, st3)
                              | (None, st3) \<Rightarrow> (Inr Break, st3)))
                  else (Inr Continue, st1)))"

text \<open>
  The \<open>for\<close> loop over the catalog with its two handlers: a Playwright timeout goes on
  to the next entry, any other exception is reported with the screen's name and raised
  again. The result is \<open>Some\<close> of that name when an exception left the loop.
\<close>

fun scan_screens ::
  "'w page \<Rightarrow> screen list \<Rightarrow> 'w loop_state \<Rightarrow> string option \<times> 'w loop_state" where
  "scan_screens P [] st = (None, st)"
| "scan_screens P (s # rest) st =
     (case try_screen P s st of
        (Inr Break, st') \<Rightarrow> (None, st')
      | (Inr Continue, st') \<Rightarrow> scan_screens P rest st'
      | (Inl PlaywrightTimeoutError, st') \<Rightarrow> scan_screens P rest st'
      | (Inl OtherException, st') \<Rightarrow> (Some (name s), st'))"

subsection \<open>The loop\<close>

text \<open>
  How the loop ends: the \<open>break\<close> when every name has been seen, the \<open>break\<close> after
  thirty passes without a visible screen, the TimeoutError (with the two sorted lists the
  script prints, seen and not seen; the second is also in the exception's message), or
  the exception raised again while handling the named screen.
\<close>

datatype outcome =
    AllHandled
  | NoScreensDetected
  | TimeoutError "string list" "string list"
  | FatalError string

definition timeout_seconds :: real where
  "timeout_seconds = 300"

text \<open>
  One pass through the body of \<open>while True\<close>; \<open>None\<close> when the loop goes round again.
\<close>

definition iteration ::
  "'w page \<Rightarrow> screen list \<Rightarrow> real \<Rightarrow> 'w loop_state \<Rightarrow> outcome option \<times> 'w loop_state" where
  "iteration P screens start_time st =
     (let elapsed = clock P (world st) - start_time
      in if elapsed > timeout_seconds then
           (Some (TimeoutError
                    (sorted_list_of_set (screens_seen st))
                    (sorted_list_of_set (all_screen_names screens - screens_seen st))),
            st)
         else if screens_seen st = all_screen_names screens then (Some AllHandled, st)
         else
           (case scan_screens P screens
                   (st\<lparr>world := sleep P 1 (world st), screen_found := False\<rparr>) of
              (Some n, st') \<Rightarrow> (Some (FatalError n), st')
            | (None, st') \<Rightarrow>
                if \<not> screen_found st' then
                  (let st'' = st'\<lparr>consecutive_no_match := consecutive_no_match st' + 1\<rparr>
                   in if consecutive_no_match st'' \<ge> 30 then (Some NoScreensDetected, st'')
                      else (None, st''))
                else (None, st'\<lparr>consecutive_no_match := 0\<rparr>)))"

text \<open>
  The loop may go round for ever on a page whose clock stands still, so it is run for at
  most a given number of passes; \<open>None\<close> means it has not ended within them.
\<close>

fun run_loop ::
  "'w page \<Rightarrow> screen list \<Rightarrow> real \<Rightarrow> nat \<Rightarrow> 'w loop_state \<Rightarrow> outcome option \<times> 'w loop_state" where
  "run_loop P screens start_time 0 st = (None, st)"
| "run_loop P screens start_time (Suc n) st =
     (case iteration P screens start_time st of
        (Some r, st') \<Rightarrow> (Some r, st')
      | (None, st') \<Rightarrow> run_loop P screens start_time n st')"

text \<open>
  The loop of \<open>handle_post_wizard\<close> from the assignments before \<open>while True\<close> to its
  end, on the page as the navigation left it. The summary printed after the loop is
  not modelled.
\<close>

definition handle_post_wizard ::
  "'w page \<Rightarrow> screen list \<Rightarrow> nat \<Rightarrow> 'w \<Rightarrow> outcome option \<times> 'w loop_state" where
  "handle_post_wizard P screens passes w0 =
     run_loop P screens (clock P w0) passes
       \<lparr>screens_seen = {}, consecutive_no_match = 0, screen_found = False,
        world = w0, trace = []\<rparr>"

subsection \<open>Reading the record of events\<close>

text \<open>The screen an event of the handling belongs to; detection and marking are not handling.\<close>

fun handled_name :: "event \<Rightarrow> string option" where
  "handled_name (Visible n r) = None"
| "handled_name (SeenAdd n) = None"
| "handled_name (ActionRun n r) = Some n"
| "handled_name (ButtonWait n r) = Some n"
| "handled_name (ButtonClick n r) = Some n"
| "handled_name (HiddenWait n r) = Some n"
| "handled_name (LoadWait n r) = Some n"

fun is_action_of :: "string \<Rightarrow> event \<Rightarrow> bool" where
  "is_action_of n (ActionRun m r) = (m = n)"
| "is_action_of n e = False"

fun is_click_of :: "string \<Rightarrow> event \<Rightarrow> bool" where
  "is_click_of n (ButtonClick m r) = (m = n)"
| "is_click_of n e = False"

fun is_add_of :: "string \<Rightarrow> event \<Rightarrow> bool" where
  "is_add_of n (SeenAdd m) = (m = n)"
| "is_add_of n e = False"

fun is_seen_visible :: "event \<Rightarrow> bool" where
  "is_seen_visible (Visible n r) = (r = Inr True)"
| "is_seen_visible e = False"

text \<open>
  What the events of handling one screen \<open>n\<close> look like, given how the handling ended
  (\<open>r\<close>): they all belong to \<open>n\<close>, the action and the click occur at most once, and the
  wait for the network that returns normally is the last of them and present exactly
  when the handling returned normally.
\<close>

definition dismiss_events :: "string \<Rightarrow> page_exc option \<Rightarrow> event list \<Rightarrow> bool" where
  "dismiss_events n r evs \<longleftrightarrow>
     (\<forall>e \<in> set evs. handled_name e = Some n)
   \<and> length (filter (is_action_of n) evs) \<le> 1
   \<and> length (filter (is_click_of n) evs) \<le> 1
   \<and> (\<forall>m. LoadWait m None \<notin> set (butlast evs))
   \<and> (r = None \<longleftrightarrow> (\<exists>m. LoadWait m None \<in> set evs))"

text \<open>
  The invariant of the record against the set of seen names: the names added are the
  seen names, each added once; only seen screens have been handled, each after its name
  was added, with at most one action and one click.
\<close>

definition trace_inv :: "string set \<Rightarrow> event list \<Rightarrow> bool" where
  "trace_inv seen tr \<longleftrightarrow>
     (\<forall>n. length (filter (is_add_of n) tr) = (if n \<in> seen then 1 else 0))
   \<and> (\<forall>e \<in> set tr. \<forall>n. handled_name e = Some n \<longrightarrow> n \<in> seen)
   \<and> (\<forall>i < length tr. \<forall>n. handled_name (tr ! i) = Some n \<longrightarrow> (\<exists>j < i. tr ! j = SeenAdd n))
   \<and> (\<forall>n. length (filter (is_action_of n) tr) \<le> 1 \<and> length (filter (is_click_of n) tr) \<le> 1)"

definition loop_inv :: "string set \<Rightarrow> 'w loop_state \<Rightarrow> bool" where
  "loop_inv names st \<longleftrightarrow>
     screens_seen st \<subseteq> names \<and> trace_inv (screens_seen st) (trace st)"

text \<open>The starting point of one pass: the state after the \<open>sleep\<close>, with the flag cleared.\<close>

definition after_sleep :: "'w page \<Rightarrow> 'w loop_state \<Rightarrow> 'w loop_state" where
  "after_sleep P st = st\<lparr>world := sleep P 1 (world st), screen_found := False\<rparr>"

fun is_completed :: "event \<Rightarrow> bool" where
  "is_completed (LoadWait n r) = (r = None)"
| "is_completed e = False"

definition initial_state :: "'w \<Rightarrow> 'w loop_state" where
  "initial_state w0 =
     \<lparr>screens_seen = {}, consecutive_no_match = 0, screen_found = False, world = w0, trace = []\<rparr>"

subsection \<open>A sample API document\<close>

definition sample_dsm :: "(string \<times> json) list" where
  "sample_dsm =
     [(''7.2'', JArr [JObj [(''version'', JStr ''7.2.2-72806 Update 4'')],
                      JObj [(''version'', JStr ''7.2.2-72806'')]]),
      (''7.1'', JArr [JObj [(''version'', JStr ''7.1.1-42962 Update 9'')]])]"

definition sample_info :: "(string \<times> json) list" where
  "sample_info =
     [(''verList'', JArr [JObj [(''value'', JStr ''all_versions'')],
                          JObj [(''value'', JStr ''7.2'')],
                          JObj [(''value'', JStr ''7.1'')]]),
      (''versions'', JObj [(''DSM'', JObj sample_dsm)])]"

definition sample_payload :: json where
  "sample_payload = JObj [(''info'', JObj sample_info)]"

text \<open>
  Two process environments in which every file can be written and \<open>dsm-version.sh\<close> and
  \<open>./dsm-version.sh\<close> name file 0: one without \<open>GITHUB_OUTPUT\<close>, one where it is set to
  the second spelling.
\<close>

definition plain_env :: os_env where
  "plain_env =
     \<lparr>github_output = None,
      file_of = (\<lambda>p. if p = ''dsm-version.sh'' \<or> p = ''./dsm-version.sh'' then 0 else 1),
      can_write = (\<lambda>p. True),
      files = Map.empty\<rparr>"

definition alias_env :: os_env where
  "alias_env = plain_env\<lparr>github_output := Some ''./dsm-version.sh''\<rparr>"

subsection \<open>Sample pages and catalogs\<close>

text \<open>
  A page whose world is the time on the clock, in seconds. Whether a selector is visible
  is a function of the time; a wait on a selector returns what \<open>waits\<close> says for it, the
  wait for the network what \<open>settle\<close> says at that time, and each wait takes the
  fraction \<open>d\<close> of the timeout it was given; a click returns at once.
\<close>

definition scripted_page ::
  "(string \<Rightarrow> real \<Rightarrow> page_exc + bool) \<Rightarrow> (string \<Rightarrow> page_exc option)
     \<Rightarrow> (real \<Rightarrow> page_exc option) \<Rightarrow> real \<Rightarrow> real page" where
  "scripted_page vis waits settle d =
     \<lparr>clock = (\<lambda>w. w),
      sleep = (\<lambda>s w. w + s),
      is_visible = (\<lambda>sel w. (vis sel w, w)),
      wait_for = (\<lambda>sel ws ms w. (waits sel, w + d * real ms / 1000)),
      click = (\<lambda>sel w. (None, w)),
      wait_for_load_state = (\<lambda>s ms w. (settle w, w + d * real ms / 1000))\<rparr>"

definition screen_a :: screen where
  "screen_a = \<lparr>name = ''A'', screen_identifier = ''#a'', action = Some ConfigureUpdatesScreen,
                button = Some ''#a-x''\<rparr>"

definition screen_b :: screen where
  "screen_b = \<lparr>name = ''B'', screen_identifier = ''#b'', action = Some CloseNotificationSetup,
                button = None\<rparr>"

definition screen_c :: screen where
  "screen_c = \<lparr>name = ''C'', screen_identifier = ''#c'', action = None, button = Some ''#c-ok''\<rparr>"

text \<open>The dialog \<open>#a\<close> stays visible whatever is done; nothing else is ever shown.\<close>

definition flicker_page :: "real page" where
  "flicker_page =
     scripted_page (\<lambda>sel w. Inr (sel = ''#a'')) (\<lambda>sel. None) (\<lambda>w. None) (1 / 10)"

text \<open>The dialog \<open>#a\<close> is shown during the first nine seconds, the dialog \<open>#b\<close> after them.\<close>

definition a_then_b_page :: "real page" where
  "a_then_b_page =
     scripted_page (\<lambda>sel w. Inr (if w < 9 then sel = ''#a'' else sel = ''#b''))
       (\<lambda>sel. None) (\<lambda>w. None) (1 / 10)"

text \<open>Nothing is ever shown.\<close>

definition blank_page :: "real page" where
  "blank_page = scripted_page (\<lambda>sel w. Inr False) (\<lambda>sel. None) (\<lambda>w. None) (1 / 10)"

text \<open>
  The screens of a catalog shown one after the other, each for \<open>slot\<close> seconds, and
  nothing after the last.
\<close>

fun shown_in_turn :: "screen list \<Rightarrow> real \<Rightarrow> string \<Rightarrow> real \<Rightarrow> bool" where
  "shown_in_turn [] slot sel w = False"
| "shown_in_turn (s # rest) slot sel w =
     (if w < slot then sel = screen_identifier s else shown_in_turn rest slot sel (w - slot))"

definition screen_d :: screen where
  "screen_d = \<lparr>name = ''D'', screen_identifier = ''#d'', action = None, button = Some ''#d-ok''\<rparr>"

definition screen_e :: screen where
  "screen_e = \<lparr>name = ''E'', screen_identifier = ''#e'', action = None, button = Some ''#e-ok''\<rparr>"

definition screen_f :: screen where
  "screen_f = \<lparr>name = ''F'', screen_identifier = ''#f'', action = None, button = Some ''#f-ok''\<rparr>"

definition five_screens :: "screen list" where
  "five_screens = [screen_a, screen_b, screen_c, screen_d, screen_e]"

text \<open>
  The five dialogs \<open>#a\<close> to \<open>#e\<close> appear in turn, each for 64 seconds, and every wait
  takes nine tenths of its timeout.
\<close>

definition slow_page :: "real page" where
  "slow_page =
     scripted_page (\<lambda>sel w. Inr (shown_in_turn five_screens 64 sel w))
       (\<lambda>sel. None) (\<lambda>w. None) (9 / 10)"

text \<open>
  The dialogs \<open>#a\<close> and \<open>#c\<close> are both open; the button of \<open>#a\<close> never becomes visible.
\<close>

definition stuck_button_page :: "real page" where
  "stuck_button_page =
     scripted_page (\<lambda>sel w. Inr (sel = ''#a'' \<or> sel = ''#c''))
       (\<lambda>sel. if sel = ''#a-x'' then Some PlaywrightTimeoutError else None)
       (\<lambda>w. None) (1 / 10)"

text \<open>
  The dialog \<open>#a\<close> is open for two seconds and \<open>#c\<close> throughout; the network is not idle
  during the first ten seconds.
\<close>

definition busy_page :: "real page" where
  "busy_page =
     scripted_page (\<lambda>sel w. Inr (sel = ''#a'' \<and> w < 2 \<or> sel = ''#c''))
       (\<lambda>sel. None)
       (\<lambda>w. if w < 10 then Some PlaywrightTimeoutError else None) (1 / 10)"

text \<open>The query for \<open>#a\<close> raises an error that is not a timeout.\<close>

definition broken_query_page :: "real page" where
  "broken_query_page =
     scripted_page (\<lambda>sel w. if sel = ''#a'' then Inl OtherException else Inr (sel = ''#c''))
       (\<lambda>sel. None) (\<lambda>w. None) (1 / 10)"

section \<open>Properties of the version scraper\<close>

lemma find_latest_series_skip:
  assumes "\<forall>v \<in> set skipped. py_getitem v (JStr ''value'') = Inr (JStr ''all_versions'')"
  shows "find_latest_series (skipped @ rest) = find_latest_series rest"
  using assms by (induction skipped) auto

lemma re_search_sample:
  "re_search ''7.2.2-72806 Update 4'' = Some (''7.2.2'', ''72806'')"
  by (simp add: match_here_def digits1_def lit_def and_then_def is_digit_def)

text \<open>
  Claim C7. For any API document whose first series other than \<open>all_versions\<close> has a
  first entry with the version string \<open>7.2.2-72806 Update 4\<close>, the scraper extracts
  version \<open>7.2.2\<close> and build \<open>72806\<close>, and a run without \<open>--update-file\<close> prints
  exactly the JSON object with \<open>version\<close>, \<open>build\<close> and \<open>full_version\<close> set to
  \<open>7.2.2\<close>, \<open>72806\<close> and \<open>7.2.2-72806\<close>, as \<open>json.dumps\<close> with \<open>indent=2\<close>
  writes it, followed by a newline.
\<close>

theorem version_scraper_output:
  assumes info: "map_of doc ''info'' = Some (JObj info)"
      and verList: "map_of info ''verList'' = Some (JArr (skipped @ JObj ver # later))"
      and skipped: "\<forall>v \<in> set skipped. py_getitem v (JStr ''value'') = Inr (JStr ''all_versions'')"
      and series: "map_of ver ''value'' = Some (JStr series)"
        "series \<noteq> ''all_versions''" "series \<noteq> []"
      and versions: "map_of info ''versions'' = Some (JObj vs)"
        "map_of vs ''DSM'' = Some (JObj dsm)"
      and entry: "map_of dsm series = Some (JArr (JObj entry # older))"
        "map_of entry ''version'' = Some (JStr ''7.2.2-72806 Update 4'')"
      and default: "\<not> update_file a"
      and writable: "\<forall>p. github_output env = Some p \<longrightarrow> can_write env p"
  shows "scrape_dsm_version (Some (JObj doc)) = Inr (Some (''7.2.2'', ''72806''))
       \<and> status (main a env (Some (JObj doc))) = Exit 0
       \<and> stdout (main a env (Some (JObj doc))) =
           json_dumps_indent2
             [(''version'', ''7.2.2''), (''build'', ''72806''), (''full_version'', ''7.2.2-72806'')]
           @ [nl]
       \<and> stdout (main a env (Some (JObj doc))) =
           ''{'' @ [nl]
           @ ''  '' @ [dq] @ ''version'' @ [dq] @ '': '' @ [dq] @ ''7.2.2'' @ [dq] @ '','' @ [nl]
           @ ''  '' @ [dq] @ ''build'' @ [dq] @ '': '' @ [dq] @ ''72806'' @ [dq] @ '','' @ [nl]
           @ ''  '' @ [dq] @ ''full_version'' @ [dq] @ '': '' @ [dq] @ ''7.2.2-72806'' @ [dq] @ [nl]
           @ ''}'' @ [nl]"
proof -
  have lists: "read_lists (JObj doc) = Some (JArr (skipped @ JObj ver # later), JObj dsm)"
    using info verList versions by (simp add: read_lists_def on_value_def py_getitem_def)
  have "find_latest_series (skipped @ JObj ver # later) = find_latest_series (JObj ver # later)"
    using skipped by (rule find_latest_series_skip)
  also have "\<dots> = Inr (Some (JStr series))"
    using series by (simp add: py_getitem_def)
  finally have found: "find_latest_series (skipped @ JObj ver # later) = Inr (Some (JStr series))" .
  have latest: "latest_of_series (JObj dsm) (JStr series) = Inr (Some (''7.2.2'', ''72806''))"
    using entry
    by (simp add: latest_of_series_def py_getitem_def py_index_def on_value_def
        parse_version_def re_search_sample del: re_search.simps)
  have scrape: "scrape_dsm_version (Some (JObj doc)) = Inr (Some (''7.2.2'', ''72806''))"
    using series(3) by (simp add: scrape_dsm_version_def lists on_value_def found latest)
  have gh: "\<exists>env2. write_github_output ''7.2.2'' ''72806'' env = Inr env2"
    using writable by (auto simp: write_github_output_def split: option.splits)
  then obtain env2 where env2: "write_github_output ''7.2.2'' ''72806'' env = Inr env2" ..
  have run: "status (main a env (Some (JObj doc))) = Exit 0"
    "stdout (main a env (Some (JObj doc))) =
       json_dumps_indent2
         [(''version'', ''7.2.2''), (''build'', ''72806''), (''full_version'', ''7.2.2-72806'')]
       @ [nl]"
    using default by (simp_all add: main_def scrape env2)
  have rendered: "json_dumps_indent2
         [(''version'', ''7.2.2''), (''build'', ''72806''), (''full_version'', ''7.2.2-72806'')] =
           ''{'' @ [nl]
           @ ''  '' @ [dq] @ ''version'' @ [dq] @ '': '' @ [dq] @ ''7.2.2'' @ [dq] @ '','' @ [nl]
           @ ''  '' @ [dq] @ ''build'' @ [dq] @ '': '' @ [dq] @ ''72806'' @ [dq] @ '','' @ [nl]
           @ ''  '' @ [dq] @ ''full_version'' @ [dq] @ '': '' @ [dq] @ ''7.2.2-72806'' @ [dq] @ [nl]
           @ ''}''"
    by (simp add: json_dumps_indent2_def json_quote_def json_escape_char_def dq_def bsl_def)
  have printed: "stdout (main a env (Some (JObj doc))) =
           ''{'' @ [nl]
           @ ''  '' @ [dq] @ ''version'' @ [dq] @ '': '' @ [dq] @ ''7.2.2'' @ [dq] @ '','' @ [nl]
           @ ''  '' @ [dq] @ ''build'' @ [dq] @ '': '' @ [dq] @ ''72806'' @ [dq] @ '','' @ [nl]
           @ ''  '' @ [dq] @ ''full_version'' @ [dq] @ '': '' @ [dq] @ ''7.2.2-72806'' @ [dq] @ [nl]
           @ ''}'' @ [nl]"
    unfolding run(2) rendered by simp
  show ?thesis
    by (intro conjI) (fact scrape, fact run(1), fact run(2), fact printed)
qed

theorem version_scraper_output_witness:
  "scrape_dsm_version (Some (JObj [(''info'', JObj sample_info)])) = Inr (Some (''7.2.2'', ''72806''))
   \<and> status (main \<lparr>update_file = False, args_json = False\<rparr>
             \<lparr>github_output = None, file_of = (\<lambda>p. 0), can_write = (\<lambda>p. True), files = Map.empty\<rparr>
             (Some (JObj [(''info'', JObj sample_info)]))) = Exit 0
   \<and> stdout (main \<lparr>update_file = False, args_json = False\<rparr>
             \<lparr>github_output = None, file_of = (\<lambda>p. 0), can_write = (\<lambda>p. True), files = Map.empty\<rparr>
             (Some (JObj [(''info'', JObj sample_info)]))) =
        json_dumps_indent2
          [(''version'', ''7.2.2''), (''build'', ''72806''), (''full_version'', ''7.2.2-72806'')]
        @ [nl]
   \<and> stdout (main \<lparr>update_file = False, args_json = False\<rparr>
             \<lparr>github_output = None, file_of = (\<lambda>p. 0), can_write = (\<lambda>p. True), files = Map.empty\<rparr>
             (Some (JObj [(''info'', JObj sample_info)]))) =
     ''{'' @ [nl]
     @ ''  '' @ [dq] @ ''version'' @ [dq] @ '': '' @ [dq] @ ''7.2.2'' @ [dq] @ '','' @ [nl]
     @ ''  '' @ [dq] @ ''build'' @ [dq] @ '': '' @ [dq] @ ''72806'' @ [dq] @ '','' @ [nl]
     @ ''  '' @ [dq] @ ''full_version'' @ [dq] @ '': '' @ [dq] @ ''7.2.2-72806'' @ [dq] @ [nl]
     @ ''}'' @ [nl]"
proof (rule version_scraper_output
      [where doc = "[(''info'', JObj sample_info)]"
         and info = sample_info
         and skipped = "[JObj [(''value'', JStr ''all_versions'')]]"
         and ver = "[(''value'', JStr ''7.2'')]"
         and later = "[JObj [(''value'', JStr ''7.1'')]]"
         and series = "''7.2''"
         and vs = "[(''DSM'', JObj sample_dsm)]"
         and dsm = sample_dsm
         and entry = "[(''version'', JStr ''7.2.2-72806 Update 4'')]"
         and older = "[JObj [(''version'', JStr ''7.2.2-72806'')]]"
         and a = "\<lparr>update_file = False, args_json = False\<rparr>"
         and env = "\<lparr>github_output = None, file_of = (\<lambda>p. 0), can_write = (\<lambda>p. True), files = Map.empty\<rparr>"])
  show "map_of [(''info'', JObj sample_info)] ''info'' = Some (JObj sample_info)" by simp
  show "map_of sample_info ''verList'' =
    Some (JArr ([JObj [(''value'', JStr ''all_versions'')]] @ JObj [(''value'', JStr ''7.2'')]
      # [JObj [(''value'', JStr ''7.1'')]]))"
    by (simp add: sample_info_def)
  show "\<forall>v\<in>set [JObj [(''value'', JStr ''all_versions'')]].
       py_getitem v (JStr ''value'') = Inr (JStr ''all_versions'')"
    by (simp add: py_getitem_def)
  show "map_of [(''value'', JStr ''7.2'')] ''value'' = Some (JStr ''7.2'')" by simp
  show "''7.2'' \<noteq> ''all_versions''" by simp
  show "''7.2'' \<noteq> []" by simp
  show "map_of sample_info ''versions'' = Some (JObj [(''DSM'', JObj sample_dsm)])"
    by (simp add: sample_info_def)
  show "map_of [(''DSM'', JObj sample_dsm)] ''DSM'' = Some (JObj sample_dsm)" by simp
  show "map_of sample_dsm ''7.2'' =
    Some (JArr (JObj [(''version'', JStr ''7.2.2-72806 Update 4'')]
      # [JObj [(''version'', JStr ''7.2.2-72806'')]]))"
    by (simp add: sample_dsm_def)
  show "map_of [(''version'', JStr ''7.2.2-72806 Update 4'')] ''version'' =
    Some (JStr ''7.2.2-72806 Update 4'')" by simp
  show "\<not> update_file \<lparr>update_file = False, args_json = False\<rparr>" by simp
  show "\<forall>p. github_output \<lparr>github_output = None, file_of = (\<lambda>p. 0), can_write = (\<lambda>p. True), files = Map.empty\<rparr> = Some p
     \<longrightarrow> can_write \<lparr>github_output = None, file_of = (\<lambda>p. 0), can_write = (\<lambda>p. True), files = Map.empty\<rparr> p" by simp
qed

lemma scrape_sample_payload:
  "scrape_dsm_version (Some sample_payload) = Inr (Some (''7.2.2'', ''72806''))"
  by (simp add: scrape_dsm_version_def sample_payload_def sample_info_def sample_dsm_def
      read_lists_def on_value_def py_getitem_def py_index_def latest_of_series_def
      parse_version_def re_search_sample del: re_search.simps)

lemma main_success:
  assumes "scrape_dsm_version fetched = Inr (Some (version, build))"
      and "(if update_file a then update_version_file version build ''dsm-version.sh'' env
            else Inr env) = Inr env1"
      and "write_github_output version build env1 = Inr env2"
  shows "main a env fetched =
           \<lparr>status = Exit 0,
            stdout = (if args_json a \<or> \<not> update_file a
                      then json_dumps_indent2
                             [(''version'', version), (''build'', build),
                              (''full_version'', version @ ''-'' @ build)] @ [nl]
                      else []),
            files_after = files env2\<rparr>"
  using assms by (simp add: main_def)

lemma main_exit0:
  assumes "status (main a env fetched) = Exit 0"
  shows "\<exists>version build env1 env2.
           scrape_dsm_version fetched = Inr (Some (version, build))
         \<and> (if update_file a then update_version_file version build ''dsm-version.sh'' env
              else Inr env) = Inr env1
         \<and> write_github_output version build env1 = Inr env2"
proof (cases "scrape_dsm_version fetched")
  case (Inl e)
  with assms show ?thesis by (simp add: main_def)
next
  case (Inr found)
  show ?thesis
  proof (cases found)
    case None
    with Inr assms show ?thesis by (simp add: main_def)
  next
    case (Some vb)
    obtain version build where vb: "vb = (version, build)" by (cases vb)
    show ?thesis
    proof (cases "if update_file a then update_version_file version build ''dsm-version.sh'' env
              else Inr env")
      case (Inl e)
      with Inr Some vb assms show ?thesis by (simp add: main_def)
    next
      case upd: (Inr env1)
      show ?thesis
      proof (cases "write_github_output version build env1")
        case (Inl e)
        with Inr Some vb upd assms show ?thesis by (simp add: main_def)
      next
        case gh: (Inr env2)
        from Inr Some vb upd gh show ?thesis by blast
      qed
    qed
  qed
qed

lemma main_stdout_failure:
  assumes "status (main a env fetched) \<noteq> Exit 0"
  shows "stdout (main a env fetched) = []"
proof (cases "scrape_dsm_version fetched")
  case (Inl e)
  then show ?thesis by (simp add: main_def)
next
  case (Inr found)
  show ?thesis
  proof (cases found)
    case None
    with Inr show ?thesis by (simp add: main_def)
  next
    case (Some vb)
    obtain version build where vb: "vb = (version, build)" by (cases vb)
    show ?thesis
    proof (cases "if update_file a then update_version_file version build ''dsm-version.sh'' env
              else Inr env")
      case (Inl e)
      with Inr Some vb show ?thesis by (simp add: main_def)
    next
      case upd: (Inr env1)
      show ?thesis
      proof (cases "write_github_output version build env1")
        case (Inl e)
        with Inr Some vb upd show ?thesis by (simp add: main_def)
      next
        case gh: (Inr env2)
        from Inr Some vb have "scrape_dsm_version fetched = Inr (Some (version, build))" by simp
        from main_success [OF this upd gh] assms show ?thesis by simp
      qed
    qed
  qed
qed

lemma digits1_digits: "digits1 s = Some (d, r) \<Longrightarrow> \<forall>c \<in> set d. is_digit c"
  by (auto simp: digits1_def Let_def split: if_splits dest: set_takeWhileD)

lemma match_here_plain:
  assumes "match_here s = Some (v, b)"
  shows "(\<forall>c \<in> set v. is_digit c \<or> c = CHR ''.'') \<and> (\<forall>c \<in> set b. is_digit c)"
proof -
  from assms obtain a s1 s2 b' s3 s4 c s5 s6 s7 where
    "digits1 s = Some (a, s1)" "digits1 s2 = Some (b', s3)" "digits1 s4 = Some (c, s5)"
    "digits1 s6 = Some (b, s7)" "v = a @ ''.'' @ b' @ ''.'' @ c"
    by (auto simp: match_here_def and_then_def split: option.splits prod.splits)
  with digits1_digits show ?thesis by fastforce
qed

lemma re_search_plain:
  "re_search s = Some (v, b) \<Longrightarrow>
     (\<forall>c \<in> set v. is_digit c \<or> c = CHR ''.'') \<and> (\<forall>c \<in> set b. is_digit c)"
proof (induction s)
  case Nil
  then show ?case by (simp add: match_here_plain)
next
  case (Cons x xs)
  show ?case
  proof (cases "match_here (x # xs)")
    case None
    with Cons show ?thesis by simp
  next
    case (Some m)
    with Cons.prems have "match_here (x # xs) = Some (v, b)" by simp
    then show ?thesis by (rule match_here_plain)
  qed
qed

lemma parse_version_re:
  "parse_version j = Inr (Some vb) \<Longrightarrow> \<exists>s. re_search s = Some vb"
  by (cases j) (auto simp: parse_version_def split: option.splits)

lemma latest_of_series_re:
  "latest_of_series d k = Inr (Some vb) \<Longrightarrow> \<exists>s. re_search s = Some vb"
  by (auto simp: latest_of_series_def on_value_def split: sum.splits if_splits
      dest: parse_version_re)

lemma scrape_dsm_version_re:
  "scrape_dsm_version fetched = Inr (Some vb) \<Longrightarrow> \<exists>s. re_search s = Some vb"
  by (auto simp: scrape_dsm_version_def on_value_def
      split: option.splits prod.splits sum.splits if_splits dest: latest_of_series_re)

lemma scrape_dsm_version_plain:
  assumes "scrape_dsm_version fetched = Inr (Some (version, build))"
  shows "(\<forall>c \<in> set version. is_digit c \<or> c = CHR ''.'') \<and> (\<forall>c \<in> set build. is_digit c)"
  using scrape_dsm_version_re [OF assms] re_search_plain by blast

lemma json_escape_digit: "is_digit c \<Longrightarrow> json_escape_char c = [c]"
  unfolding is_digit_def
  by (auto simp: json_escape_char_def bsl_def dq_def)

lemma json_escape_dot_dash:
  "json_escape_char (CHR ''.'') = ''.''" "json_escape_char (CHR ''-'') = ''-''"
  by (simp_all add: json_escape_char_def bsl_def dq_def)

lemma concat_escape_plain:
  "\<forall>c \<in> set x. is_digit c \<or> c = CHR ''.'' \<or> c = CHR ''-'' \<Longrightarrow>
     concat (map json_escape_char x) = x"
  by (induction x) (auto simp: json_escape_digit json_escape_dot_dash)

lemma json_quote_plain:
  "\<forall>c \<in> set x. is_digit c \<or> c = CHR ''.'' \<or> c = CHR ''-'' \<Longrightarrow>
     json_quote x = CHR 0x22 # x @ [CHR 0x22]"
  by (simp add: json_quote_def concat_escape_plain dq_def)

lemma json_quote_keys:
  "json_quote ''version'' = CHR 0x22 # ''version'' @ [CHR 0x22]"
  "json_quote ''build'' = CHR 0x22 # ''build'' @ [CHR 0x22]"
  "json_quote ''full_version'' = CHR 0x22 # ''full_version'' @ [CHR 0x22]"
  by (simp_all add: json_quote_def json_escape_char_def dq_def bsl_def)

lemma output_text:
  assumes v: "\<forall>c \<in> set version. is_digit c \<or> c = CHR ''.''"
      and b: "\<forall>c \<in> set build. is_digit c"
  shows "json_dumps_indent2
           [(''version'', version), (''build'', build),
            (''full_version'', version @ ''-'' @ build)] @ [nl] =
         ''{'' @ [CHR 0x0A]
         @ ''  '' @ [CHR 0x22] @ ''version'' @ [CHR 0x22] @ '': ''
           @ [CHR 0x22] @ version @ [CHR 0x22] @ '','' @ [CHR 0x0A]
         @ ''  '' @ [CHR 0x22] @ ''build'' @ [CHR 0x22] @ '': ''
           @ [CHR 0x22] @ build @ [CHR 0x22] @ '','' @ [CHR 0x0A]
         @ ''  '' @ [CHR 0x22] @ ''full_version'' @ [CHR 0x22] @ '': ''
           @ [CHR 0x22] @ version @ ''-'' @ build @ [CHR 0x22] @ [CHR 0x0A]
         @ ''}'' @ [CHR 0x0A]"
proof -
  from v have pv: "\<forall>c \<in> set version. is_digit c \<or> c = CHR ''.'' \<or> c = CHR ''-''"
    by auto
  from b have pb: "\<forall>c \<in> set build. is_digit c \<or> c = CHR ''.'' \<or> c = CHR ''-''"
    by auto
  from pv pb
  have pf: "\<forall>c \<in> set (version @ ''-'' @ build). is_digit c \<or> c = CHR ''.'' \<or> c = CHR ''-''"
    by auto
  from pv have qv: "json_quote version = CHR 0x22 # version @ [CHR 0x22]"
    by (rule json_quote_plain)
  from pb have qb: "json_quote build = CHR 0x22 # build @ [CHR 0x22]"
    by (rule json_quote_plain)
  from pf have qf: "json_quote (version @ ''-'' @ build) =
      CHR 0x22 # (version @ ''-'' @ build) @ [CHR 0x22]"
    by (rule json_quote_plain)
  show ?thesis
    by (simp add: json_dumps_indent2_def json_quote_keys qv qb qf [simplified] nl_def)
qed

lemma file_text:
  "version_file_content version build =
     ''#!/usr/bin/env bash'' @ [CHR 0x0A]
     @ ''# DSM version configuration'' @ [CHR 0x0A]
     @ ''# These variables are sourced by build-image.sh and GitHub Actions'' @ [CHR 0x0A]
     @ ''export DSM_VERSION='' @ [CHR 0x22] @ version @ [CHR 0x22] @ [CHR 0x0A]
     @ ''export DSM_BUILD='' @ [CHR 0x22] @ build @ [CHR 0x22] @ [CHR 0x0A]"
  by (simp add: version_file_content_def nl_def dq_def)

text \<open>
  Claim C10. The scraper prints the JSON object to standard output exactly when the run
  succeeds and \<open>--json\<close> is given or \<open>--update-file\<close> is absent. What a successful run
  prints is then the object with the scraped version and build, one key per line and
  followed by a newline, and nothing otherwise; with \<open>--update-file\<close> it leaves in the
  file named \<open>dsm-version.sh\<close> the five lines of the shell snippet (followed by the two
  lines for \<open>GITHUB_OUTPUT\<close> when that variable names the same file), so a successful
  run with \<open>--update-file\<close> alone writes the file and prints nothing.
\<close>

theorem json_printed_iff_flags:
  "(stdout (main a env fetched) \<noteq> [] \<longleftrightarrow>
      status (main a env fetched) = Exit 0 \<and> (args_json a \<or> \<not> update_file a))
   \<and> (scrape_dsm_version fetched = Inr (Some (version, build))
        \<and> status (main a env fetched) = Exit 0 \<longrightarrow>
        stdout (main a env fetched) =
          (if args_json a \<or> \<not> update_file a
           then ''{'' @ [CHR 0x0A]
                @ ''  '' @ [CHR 0x22] @ ''version'' @ [CHR 0x22] @ '': ''
                  @ [CHR 0x22] @ version @ [CHR 0x22] @ '','' @ [CHR 0x0A]
                @ ''  '' @ [CHR 0x22] @ ''build'' @ [CHR 0x22] @ '': ''
                  @ [CHR 0x22] @ build @ [CHR 0x22] @ '','' @ [CHR 0x0A]
                @ ''  '' @ [CHR 0x22] @ ''full_version'' @ [CHR 0x22] @ '': ''
                  @ [CHR 0x22] @ version @ ''-'' @ build @ [CHR 0x22] @ [CHR 0x0A]
                @ ''}'' @ [CHR 0x0A]
           else [])
        \<and> (update_file a \<longrightarrow>
             files_after (main a env fetched) (file_of env ''dsm-version.sh'') =
               Some (''#!/usr/bin/env bash'' @ [CHR 0x0A]
                     @ ''# DSM version configuration'' @ [CHR 0x0A]
                     @ ''# These variables are sourced by build-image.sh and GitHub Actions''
                     @ [CHR 0x0A]
                     @ ''export DSM_VERSION='' @ [CHR 0x22] @ version @ [CHR 0x22] @ [CHR 0x0A]
                     @ ''export DSM_BUILD='' @ [CHR 0x22] @ build @ [CHR 0x22] @ [CHR 0x0A]
                     @ (case github_output env of
                          None \<Rightarrow> []
                        | Some path \<Rightarrow>
                            if path \<noteq> [] \<and> file_of env path = file_of env ''dsm-version.sh''
                            then ''version='' @ version @ [CHR 0x0A]
                                 @ ''build='' @ build @ [CHR 0x0A]
                            else [])))
        \<and> (update_file a \<and> \<not> args_json a \<longrightarrow> stdout (main a env fetched) = []))"
proof (intro conjI impI)
  show "stdout (main a env fetched) \<noteq> [] \<longleftrightarrow>
      status (main a env fetched) = Exit 0 \<and> (args_json a \<or> \<not> update_file a)"
  proof (cases "status (main a env fetched) = Exit 0")
    case True
    from main_exit0 [OF True] obtain v b env1 env2 where
      "scrape_dsm_version fetched = Inr (Some (v, b))"
      "(if update_file a then update_version_file v b ''dsm-version.sh'' env else Inr env) = Inr env1"
      "write_github_output v b env1 = Inr env2"
      by blast
    from main_success [OF this] True show ?thesis by simp
  next
    case False
    then show ?thesis by (simp add: main_stdout_failure)
  qed
next
  assume ok: "scrape_dsm_version fetched = Inr (Some (version, build))
        \<and> status (main a env fetched) = Exit 0"
  from main_exit0 [of a env fetched] ok obtain env1 env2 where
    upd: "(if update_file a then update_version_file version build ''dsm-version.sh'' env
          else Inr env) = Inr env1"
    and gh: "write_github_output version build env1 = Inr env2"
    by auto
  from ok upd gh have m: "main a env fetched =
           \<lparr>status = Exit 0,
            stdout = (if args_json a \<or> \<not> update_file a
                      then json_dumps_indent2
                             [(''version'', version), (''build'', build),
                              (''full_version'', version @ ''-'' @ build)] @ [nl]
                      else []),
            files_after = files env2\<rparr>"
    by (simp add: main_success)
  from ok scrape_dsm_version_plain [of fetched version build]
  have plain: "\<forall>c \<in> set version. is_digit c \<or> c = CHR ''.''" "\<forall>c \<in> set build. is_digit c"
    by simp_all
  show "stdout (main a env fetched) =
          (if args_json a \<or> \<not> update_file a
           then ''{'' @ [CHR 0x0A]
                @ ''  '' @ [CHR 0x22] @ ''version'' @ [CHR 0x22] @ '': ''
                  @ [CHR 0x22] @ version @ [CHR 0x22] @ '','' @ [CHR 0x0A]
                @ ''  '' @ [CHR 0x22] @ ''build'' @ [CHR 0x22] @ '': ''
                  @ [CHR 0x22] @ build @ [CHR 0x22] @ '','' @ [CHR 0x0A]
                @ ''  '' @ [CHR 0x22] @ ''full_version'' @ [CHR 0x22] @ '': ''
                  @ [CHR 0x22] @ version @ ''-'' @ build @ [CHR 0x22] @ [CHR 0x0A]
                @ ''}'' @ [CHR 0x0A]
           else [])"
    unfolding m using output_text [OF plain] by simp
  show "stdout (main a env fetched) = []" if "update_file a \<and> \<not> args_json a"
    using that by (simp add: m)
  assume flag: "update_file a"
  with upd have env1: "can_write env ''dsm-version.sh''"
    "env1 = env\<lparr>files := (files env)(file_of env ''dsm-version.sh'' \<mapsto>
               version_file_content version build)\<rparr>"
    by (auto simp: update_version_file_def split: if_splits)
  from gh have "files_after (main a env fetched) (file_of env ''dsm-version.sh'') =
      Some (version_file_content version build
            @ (case github_output env of
                 None \<Rightarrow> []
               | Some path \<Rightarrow>
                   if path \<noteq> [] \<and> file_of env path = file_of env ''dsm-version.sh''
                   then ''version='' @ version @ [CHR 0x0A] @ ''build='' @ build @ [CHR 0x0A]
                   else []))"
    by (auto simp: m env1(2) write_github_output_def nl_def split: option.splits if_splits)
  then show "files_after (main a env fetched) (file_of env ''dsm-version.sh'') =
               Some (''#!/usr/bin/env bash'' @ [CHR 0x0A]
                     @ ''# DSM version configuration'' @ [CHR 0x0A]
                     @ ''# These variables are sourced by build-image.sh and GitHub Actions''
                     @ [CHR 0x0A]
                     @ ''export DSM_VERSION='' @ [CHR 0x22] @ version @ [CHR 0x22] @ [CHR 0x0A]
                     @ ''export DSM_BUILD='' @ [CHR 0x22] @ build @ [CHR 0x22] @ [CHR 0x0A]
                     @ (case github_output env of
                          None \<Rightarrow> []
                        | Some path \<Rightarrow>
                            if path \<noteq> [] \<and> file_of env path = file_of env ''dsm-version.sh''
                            then ''version='' @ version @ [CHR 0x0A]
                                 @ ''build='' @ build @ [CHR 0x0A]
                            else []))"
    by (simp add: file_text)
qed

theorem json_printed_iff_flags_witness:
  "status (main \<lparr>update_file = True, args_json = False\<rparr> plain_env (Some sample_payload)) = Exit 0
   \<and> stdout (main \<lparr>update_file = True, args_json = False\<rparr> plain_env (Some sample_payload)) = []
   \<and> files_after (main \<lparr>update_file = True, args_json = False\<rparr> plain_env (Some sample_payload)) 0 =
        Some (''#!/usr/bin/env bash'' @ [CHR 0x0A]
              @ ''# DSM version configuration'' @ [CHR 0x0A]
              @ ''# These variables are sourced by build-image.sh and GitHub Actions''
              @ [CHR 0x0A]
              @ ''export DSM_VERSION='' @ [CHR 0x22] @ ''7.2.2'' @ [CHR 0x22] @ [CHR 0x0A]
              @ ''export DSM_BUILD='' @ [CHR 0x22] @ ''72806'' @ [CHR 0x22] @ [CHR 0x0A])
   \<and> stdout (main \<lparr>update_file = True, args_json = True\<rparr> plain_env (Some sample_payload)) =
        ''{'' @ [CHR 0x0A]
        @ ''  '' @ [CHR 0x22] @ ''version'' @ [CHR 0x22] @ '': ''
          @ [CHR 0x22] @ ''7.2.2'' @ [CHR 0x22] @ '','' @ [CHR 0x0A]
        @ ''  '' @ [CHR 0x22] @ ''build'' @ [CHR 0x22] @ '': ''
          @ [CHR 0x22] @ ''72806'' @ [CHR 0x22] @ '','' @ [CHR 0x0A]
        @ ''  '' @ [CHR 0x22] @ ''full_version'' @ [CHR 0x22] @ '': ''
          @ [CHR 0x22] @ ''7.2.2-72806'' @ [CHR 0x22] @ [CHR 0x0A]
        @ ''}'' @ [CHR 0x0A]
   \<and> files_after (main \<lparr>update_file = True, args_json = False\<rparr> alias_env (Some sample_payload)) 0 =
        Some (''#!/usr/bin/env bash'' @ [CHR 0x0A]
              @ ''# DSM version configuration'' @ [CHR 0x0A]
              @ ''# These variables are sourced by build-image.sh and GitHub Actions''
              @ [CHR 0x0A]
              @ ''export DSM_VERSION='' @ [CHR 0x22] @ ''7.2.2'' @ [CHR 0x22] @ [CHR 0x0A]
              @ ''export DSM_BUILD='' @ [CHR 0x22] @ ''72806'' @ [CHR 0x22] @ [CHR 0x0A]
              @ ''version=7.2.2'' @ [CHR 0x0A] @ ''build=72806'' @ [CHR 0x0A])"
proof -
  have ok1: "status (main \<lparr>update_file = True, args_json = False\<rparr> plain_env
      (Some sample_payload)) = Exit 0"
    by (simp add: main_def scrape_sample_payload update_version_file_def
        write_github_output_def plain_env_def)
  have ok2: "status (main \<lparr>update_file = True, args_json = True\<rparr> plain_env
      (Some sample_payload)) = Exit 0"
    by (simp add: main_def scrape_sample_payload update_version_file_def
        write_github_output_def plain_env_def)
  have ok3: "status (main \<lparr>update_file = True, args_json = False\<rparr> alias_env
      (Some sample_payload)) = Exit 0"
    by (simp add: main_def scrape_sample_payload update_version_file_def
        write_github_output_def plain_env_def alias_env_def)
  have id: "file_of plain_env ''dsm-version.sh'' = 0" "github_output plain_env = None"
    "file_of alias_env ''dsm-version.sh'' = 0" "file_of alias_env ''./dsm-version.sh'' = 0"
    "github_output alias_env = Some ''./dsm-version.sh''"
    by (simp_all add: plain_env_def alias_env_def)
  from json_printed_iff_flags [of "\<lparr>update_file = True, args_json = False\<rparr>" plain_env
      "Some sample_payload" "''7.2.2''" "''72806''"] ok1 scrape_sample_payload id
  have r1: "stdout (main \<lparr>update_file = True, args_json = False\<rparr> plain_env
        (Some sample_payload)) = []"
    "files_after (main \<lparr>update_file = True, args_json = False\<rparr> plain_env
        (Some sample_payload)) 0 =
        Some (''#!/usr/bin/env bash'' @ [CHR 0x0A]
              @ ''# DSM version configuration'' @ [CHR 0x0A]
              @ ''# These variables are sourced by build-image.sh and GitHub Actions''
              @ [CHR 0x0A]
              @ ''export DSM_VERSION='' @ [CHR 0x22] @ ''7.2.2'' @ [CHR 0x22] @ [CHR 0x0A]
              @ ''export DSM_BUILD='' @ [CHR 0x22] @ ''72806'' @ [CHR 0x22] @ [CHR 0x0A])"
    by simp_all
  from json_printed_iff_flags [of "\<lparr>update_file = True, args_json = True\<rparr>" plain_env
      "Some sample_payload" "''7.2.2''" "''72806''"] ok2 scrape_sample_payload
  have r2: "stdout (main \<lparr>update_file = True, args_json = True\<rparr> plain_env
        (Some sample_payload)) =
        ''{'' @ [CHR 0x0A]
        @ ''  '' @ [CHR 0x22] @ ''version'' @ [CHR 0x22] @ '': ''
          @ [CHR 0x22] @ ''7.2.2'' @ [CHR 0x22] @ '','' @ [CHR 0x0A]
        @ ''  '' @ [CHR 0x22] @ ''build'' @ [CHR 0x22] @ '': ''
          @ [CHR 0x22] @ ''72806'' @ [CHR 0x22] @ '','' @ [CHR 0x0A]
        @ ''  '' @ [CHR 0x22] @ ''full_version'' @ [CHR 0x22] @ '': ''
          @ [CHR 0x22] @ ''7.2.2-72806'' @ [CHR 0x22] @ [CHR 0x0A]
        @ ''}'' @ [CHR 0x0A]"
    by simp
  from json_printed_iff_flags [of "\<lparr>update_file = True, args_json = False\<rparr>" alias_env
      "Some sample_payload" "''7.2.2''" "''72806''"] ok3 scrape_sample_payload id
  have r3: "files_after (main \<lparr>update_file = True, args_json = False\<rparr> alias_env
        (Some sample_payload)) 0 =
        Some (''#!/usr/bin/env bash'' @ [CHR 0x0A]
              @ ''# DSM version configuration'' @ [CHR 0x0A]
              @ ''# These variables are sourced by build-image.sh and GitHub Actions''
              @ [CHR 0x0A]
              @ ''export DSM_VERSION='' @ [CHR 0x22] @ ''7.2.2'' @ [CHR 0x22] @ [CHR 0x0A]
              @ ''export DSM_BUILD='' @ [CHR 0x22] @ ''72806'' @ [CHR 0x22] @ [CHR 0x0A]
              @ ''version=7.2.2'' @ [CHR 0x0A] @ ''build=72806'' @ [CHR 0x0A])"
    by simp
  from ok1 r1 r2 r3 show ?thesis by blast
qed

section \<open>Properties of the screen loop\<close>

subsection \<open>What one step does to the state and the record\<close>

lemma dismiss_screen_effect:
  assumes "dismiss_screen P s st = (r, st')"
  shows "screens_seen st' = insert (name s) (screens_seen st)"
    and "consecutive_no_match st' = consecutive_no_match st"
    and "screen_found st' = screen_found st"
    and "\<exists>evs. trace st' = trace st @ SeenAdd (name s) # evs \<and> dismiss_events (name s) r evs"
  using assms
  unfolding dismiss_screen_def then_do_def call_def skip_def dismiss_events_def
  by (auto split: option.splits prod.splits)

text \<open>What one \<open>try\<close> does, by cases on whether the screen was handled.\<close>

lemma try_screen_effect:
  assumes "try_screen P s st = (rf, st')"
  defines "rv \<equiv> fst (is_visible P (screen_identifier s) (world st))"
  shows "consecutive_no_match st' = consecutive_no_match st"
    and "screen_found st' = (screen_found st \<or> rv = Inr True)"
    and "(screens_seen st' = screens_seen st
           \<and> trace st' = trace st @ [Visible (name s) rv]
           \<and> rf = (case rv of Inl e \<Rightarrow> Inl e | Inr v \<Rightarrow> Inr Continue)
           \<and> (rv = Inr True \<longrightarrow> name s \<in> screens_seen st))
         \<or> (name s \<notin> screens_seen st \<and> rv = Inr True
           \<and> screens_seen st' = insert (name s) (screens_seen st)
           \<and> (\<exists>r evs. trace st' = trace st @ Visible (name s) rv # SeenAdd (name s) # evs
                 \<and> dismiss_events (name s) r evs
                 \<and> rf = (case r of None \<Rightarrow> Inr Break | Some e \<Rightarrow> Inl e)))"
proof -
  obtain w' where vis: "is_visible P (screen_identifier s) (world st) = (rv, w')"
    unfolding rv_def by (cases "is_visible P (screen_identifier s) (world st)") simp
  let ?st1 = "st\<lparr>world := w', trace := trace st @ [Visible (name s) rv]\<rparr>"
  let ?st2 = "?st1\<lparr>screen_found := True\<rparr>"
  have all: "consecutive_no_match st' = consecutive_no_match st
    \<and> screen_found st' = (screen_found st \<or> rv = Inr True)
    \<and> ((screens_seen st' = screens_seen st
           \<and> trace st' = trace st @ [Visible (name s) rv]
           \<and> rf = (case rv of Inl e \<Rightarrow> Inl e | Inr v \<Rightarrow> Inr Continue)
           \<and> (rv = Inr True \<longrightarrow> name s \<in> screens_seen st))
         \<or> (name s \<notin> screens_seen st \<and> rv = Inr True
           \<and> screens_seen st' = insert (name s) (screens_seen st)
           \<and> (\<exists>r evs. trace st' = trace st @ Visible (name s) rv # SeenAdd (name s) # evs
                 \<and> dismiss_events (name s) r evs
                 \<and> rf = (case r of None \<Rightarrow> Inr Break | Some e \<Rightarrow> Inl e))))"
  proof (cases rv)
    case (Inl e)
    with assms(1) vis show ?thesis by (auto simp: try_screen_def Let_def)
  next
    case (Inr v)
    show ?thesis
    proof (cases v)
      case False
      with assms(1) vis Inr show ?thesis by (simp add: try_screen_def) auto
    next
      case True
      show ?thesis
      proof (cases "name s \<in> screens_seen st")
        case seen: True
        with assms(1) vis Inr True show ?thesis by (simp add: try_screen_def) auto
      next
        case unseen: False
        obtain r st3 where dis: "dismiss_screen P s ?st2 = (r, st3)"
          by (cases "dismiss_screen P s ?st2") simp
        from assms(1) vis Inr True unseen dis
        have res: "rf = (case r of None \<Rightarrow> Inr Break | Some e \<Rightarrow> Inl e)" "st' = st3"
          by (auto simp: try_screen_def split: option.splits)
        from dismiss_screen_effect [OF dis] True unseen Inr res show ?thesis
          by auto
      qed
    qed
  qed
  from all show "consecutive_no_match st' = consecutive_no_match st" by blast
  from all show "screen_found st' = (screen_found st \<or> rv = Inr True)" by blast
  from all show "(screens_seen st' = screens_seen st
           \<and> trace st' = trace st @ [Visible (name s) rv]
           \<and> rf = (case rv of Inl e \<Rightarrow> Inl e | Inr v \<Rightarrow> Inr Continue)
           \<and> (rv = Inr True \<longrightarrow> name s \<in> screens_seen st))
         \<or> (name s \<notin> screens_seen st \<and> rv = Inr True
           \<and> screens_seen st' = insert (name s) (screens_seen st)
           \<and> (\<exists>r evs. trace st' = trace st @ Visible (name s) rv # SeenAdd (name s) # evs
                 \<and> dismiss_events (name s) r evs
                 \<and> rf = (case r of None \<Rightarrow> Inr Break | Some e \<Rightarrow> Inl e)))" by blast
qed

lemma marked_append:
  assumes old: "\<forall>i < length tr. \<forall>n. handled_name (tr ! i) = Some n \<longrightarrow> (\<exists>j < i. tr ! j = SeenAdd n)"
      and new: "\<forall>i < length ext. \<forall>n. handled_name (ext ! i) = Some n \<longrightarrow>
                  SeenAdd n \<in> set tr \<or> (\<exists>j < i. ext ! j = SeenAdd n)"
  shows "\<forall>i < length (tr @ ext). \<forall>n. handled_name ((tr @ ext) ! i) = Some n \<longrightarrow>
           (\<exists>j < i. (tr @ ext) ! j = SeenAdd n)"
proof (intro allI impI)
  fix i n
  assume i: "i < length (tr @ ext)" and h: "handled_name ((tr @ ext) ! i) = Some n"
  show "\<exists>j < i. (tr @ ext) ! j = SeenAdd n"
  proof (cases "i < length tr")
    case True
    with h have "handled_name (tr ! i) = Some n" by (simp add: nth_append)
    with old True obtain j where j: "j < i" "tr ! j = SeenAdd n" by blast
    with True have "(tr @ ext) ! j = SeenAdd n" by (simp add: nth_append)
    with j show ?thesis by blast
  next
    case False
    let ?k = "i - length tr"
    from False i have k: "?k < length ext" by simp
    from False h have "handled_name (ext ! ?k) = Some n" by (simp add: nth_append)
    with new k have "SeenAdd n \<in> set tr \<or> (\<exists>j < ?k. ext ! j = SeenAdd n)" by blast
    then show ?thesis
    proof
      assume "SeenAdd n \<in> set tr"
      then obtain j where j: "j < length tr" "tr ! j = SeenAdd n"
        by (auto simp: in_set_conv_nth)
      with False have "j < i" "(tr @ ext) ! j = SeenAdd n" by (simp_all add: nth_append)
      then show ?thesis by blast
    next
      assume "\<exists>j < ?k. ext ! j = SeenAdd n"
      then obtain j where j: "j < ?k" "ext ! j = SeenAdd n" by blast
      then have "length tr + j < i" "(tr @ ext) ! (length tr + j) = SeenAdd n"
        by (simp_all add: nth_append)
      then show ?thesis by blast
    qed
  qed
qed

lemma trace_inv_visible:
  assumes "trace_inv seen tr"
  shows "trace_inv seen (tr @ [Visible n rv])"
proof -
  from assms have "\<forall>i < length tr. \<forall>n. handled_name (tr ! i) = Some n \<longrightarrow> (\<exists>j < i. tr ! j = SeenAdd n)"
    by (simp add: trace_inv_def)
  then have "\<forall>i < length (tr @ [Visible n rv]). \<forall>m.
      handled_name ((tr @ [Visible n rv]) ! i) = Some m \<longrightarrow>
        (\<exists>j < i. (tr @ [Visible n rv]) ! j = SeenAdd m)"
    by (rule marked_append) simp
  with assms show ?thesis by (simp add: trace_inv_def)
qed

lemma trace_inv_dismiss:
  assumes inv: "trace_inv seen tr" and new: "n \<notin> seen" and evs: "dismiss_events n r evs"
  shows "trace_inv (insert n seen) (tr @ Visible n rv # SeenAdd n # evs)"
proof -
  let ?tr = "tr @ Visible n rv # SeenAdd n # evs"
  from evs have hn: "\<forall>e \<in> set evs. handled_name e = Some n"
    and na: "length (filter (is_action_of n) evs) \<le> 1"
    and nc: "length (filter (is_click_of n) evs) \<le> 1"
    by (auto simp: dismiss_events_def)
  have noadd: "filter (is_add_of m) evs = []" for m
    using hn by (fastforce simp: filter_empty_conv elim!: is_add_of.elims)
  have other: "filter (is_action_of m) evs = [] \<and> filter (is_click_of m) evs = []" if "m \<noteq> n" for m
    using hn that by (fastforce simp: filter_empty_conv elim!: is_action_of.elims is_click_of.elims)
  from inv new have none: "filter (is_action_of n) tr = [] \<and> filter (is_click_of n) tr = []"
    unfolding trace_inv_def
    by (fastforce simp: filter_empty_conv elim!: is_action_of.elims is_click_of.elims)
  have c1: "\<forall>m. length (filter (is_add_of m) ?tr) = (if m \<in> insert n seen then 1 else 0)"
    using inv new noadd unfolding trace_inv_def by auto
  have c2: "\<forall>e \<in> set ?tr. \<forall>m. handled_name e = Some m \<longrightarrow> m \<in> insert n seen"
    using inv hn unfolding trace_inv_def by auto
  from inv have "\<forall>i < length tr. \<forall>n. handled_name (tr ! i) = Some n \<longrightarrow> (\<exists>j < i. tr ! j = SeenAdd n)"
    by (simp add: trace_inv_def)
  then have c3: "\<forall>i < length ?tr. \<forall>m. handled_name (?tr ! i) = Some m \<longrightarrow> (\<exists>j < i. ?tr ! j = SeenAdd m)"
  proof (rule marked_append, intro allI impI)
    fix i m
    assume i: "i < length (Visible n rv # SeenAdd n # evs)"
      and h: "handled_name ((Visible n rv # SeenAdd n # evs) ! i) = Some m"
    then obtain k where k: "i = Suc (Suc k)" "k < length evs"
      by (cases i; cases "i - 1") auto
    with h hn have "m = n" by (auto dest: nth_mem)
    with k have "Suc 0 < i \<and> (Visible n rv # SeenAdd n # evs) ! Suc 0 = SeenAdd m" by simp
    then show "SeenAdd m \<in> set tr \<or> (\<exists>j<i. (Visible n rv # SeenAdd n # evs) ! j = SeenAdd m)"
      by blast
  qed
  have c4: "\<forall>m. length (filter (is_action_of m) ?tr) \<le> 1 \<and> length (filter (is_click_of m) ?tr) \<le> 1"
  proof
    fix m
    show "length (filter (is_action_of m) ?tr) \<le> 1 \<and> length (filter (is_click_of m) ?tr) \<le> 1"
    proof (cases "m = n")
      case True
      with none na nc show ?thesis by simp
    next
      case False
      from other [OF False] inv show ?thesis unfolding trace_inv_def by simp
    qed
  qed
  from c1 c2 c3 c4 show ?thesis unfolding trace_inv_def by blast
qed

subsection \<open>The invariant holds throughout the loop\<close>

lemma try_screen_inv:
  assumes inv: "loop_inv names st" and s: "name s \<in> names"
      and run: "try_screen P s st = (rf, st')"
  shows "loop_inv names st'" and "screens_seen st \<subseteq> screens_seen st'"
proof -
  from inv have sub: "screens_seen st \<subseteq> names" and tr: "trace_inv (screens_seen st) (trace st)"
    by (simp_all add: loop_inv_def)
  from try_screen_effect(3) [OF run]
  have "loop_inv names st' \<and> screens_seen st \<subseteq> screens_seen st'"
  proof (elim disjE conjE exE)
    assume "screens_seen st' = screens_seen st"
      and "trace st' = trace st @ [Visible (name s) (fst (is_visible P (screen_identifier s) (world st)))]"
    with sub tr show ?thesis by (simp add: loop_inv_def trace_inv_visible)
  next
    fix r evs
    assume "name s \<notin> screens_seen st"
      and "screens_seen st' = insert (name s) (screens_seen st)"
      and "trace st' = trace st @ Visible (name s) (fst (is_visible P (screen_identifier s) (world st)))
             # SeenAdd (name s) # evs"
      and "dismiss_events (name s) r evs"
    with sub tr s show ?thesis by (auto simp: loop_inv_def trace_inv_dismiss)
  qed
  then show "loop_inv names st'" and "screens_seen st \<subseteq> screens_seen st'" by simp_all
qed

lemma scan_screens_inv:
  assumes "loop_inv names st" and "name ` set screens \<subseteq> names"
      and "scan_screens P screens st = (r, st')"
  shows "loop_inv names st' \<and> screens_seen st \<subseteq> screens_seen st'
         \<and> consecutive_no_match st' = consecutive_no_match st"
  using assms
proof (induction screens arbitrary: st)
  case Nil
  then show ?case by simp
next
  case (Cons s rest)
  obtain rf st1 where t: "try_screen P s st = (rf, st1)" by (cases "try_screen P s st") simp
  from Cons.prems have s: "name s \<in> names" and rest: "name ` set rest \<subseteq> names" by auto
  from try_screen_inv [OF Cons.prems(1) s t] try_screen_effect(1) [OF t]
  have st1: "loop_inv names st1" "screens_seen st \<subseteq> screens_seen st1"
    "consecutive_no_match st1 = consecutive_no_match st" by simp_all
  show ?case
  proof (cases "rf = Inr Continue \<or> rf = Inl PlaywrightTimeoutError")
    case True
    with Cons.prems(3) t have "scan_screens P rest st1 = (r, st')" by auto
    from Cons.IH [OF st1(1) rest this] st1 show ?thesis by auto
  next
    case False
    then have "rf = Inr Break \<or> rf = Inl OtherException"
      by (cases rf) (auto intro: flow.exhaust page_exc.exhaust)
    with Cons.prems(3) t have "st' = st1" by auto
    with st1 show ?thesis by simp
  qed
qed

lemma iteration_inv:
  assumes inv: "loop_inv (all_screen_names screens) st"
      and run: "iteration P screens t0 st = (r, st')"
  shows "loop_inv (all_screen_names screens) st' \<and> screens_seen st \<subseteq> screens_seen st'"
proof (cases "clock P (world st) - t0 > timeout_seconds
               \<or> screens_seen st = all_screen_names screens")
  case True
  with run have "st' = st" by (auto simp: iteration_def Let_def split: if_splits)
  with inv show ?thesis by simp
next
  case False
  let ?st0 = "st\<lparr>world := sleep P 1 (world st), screen_found := False\<rparr>"
  obtain rs st1 where sc: "scan_screens P screens ?st0 = (rs, st1)"
    by (cases "scan_screens P screens ?st0") simp
  from inv have "loop_inv (all_screen_names screens) ?st0" by (simp add: loop_inv_def)
  from scan_screens_inv [OF this _ sc]
  have st1: "loop_inv (all_screen_names screens) st1" "screens_seen st \<subseteq> screens_seen st1"
    by (simp_all add: all_screen_names_def)
  from run False sc have "screens_seen st' = screens_seen st1 \<and> trace st' = trace st1"
    by (auto simp: iteration_def Let_def split: if_splits option.splits)
  with st1 show ?thesis by (simp add: loop_inv_def)
qed

lemma run_loop_inv:
  assumes "loop_inv (all_screen_names screens) st"
      and "run_loop P screens t0 n st = (r, st')"
  shows "loop_inv (all_screen_names screens) st' \<and> screens_seen st \<subseteq> screens_seen st'"
  using assms
proof (induction n arbitrary: st)
  case 0
  then show ?case by simp
next
  case (Suc n)
  obtain ri st1 where it: "iteration P screens t0 st = (ri, st1)"
    by (cases "iteration P screens t0 st") simp
  from iteration_inv [OF Suc.prems(1) it]
  have st1: "loop_inv (all_screen_names screens) st1" "screens_seen st \<subseteq> screens_seen st1"
    by simp_all
  show ?case
  proof (cases ri)
    case None
    with Suc.prems(2) it have "run_loop P screens t0 n st1 = (r, st')" by simp
    from Suc.IH [OF st1(1) this] st1 show ?thesis by auto
  next
    case (Some x)
    with Suc.prems(2) it have "st' = st1" by simp
    with st1 show ?thesis by simp
  qed
qed

lemma initial_inv:
  "loop_inv names \<lparr>screens_seen = {}, consecutive_no_match = 0, screen_found = False,
                   world = w0, trace = []\<rparr>"
  by (simp add: loop_inv_def trace_inv_def)

lemma handle_post_wizard_inv:
  "loop_inv (all_screen_names screens) (snd (handle_post_wizard P screens passes w0))"
proof -
  obtain r st' where run: "handle_post_wizard P screens passes w0 = (r, st')"
    by (cases "handle_post_wizard P screens passes w0") simp
  then have "run_loop P screens (clock P w0) passes
       \<lparr>screens_seen = {}, consecutive_no_match = 0, screen_found = False,
        world = w0, trace = []\<rparr> = (r, st')"
    by (simp add: handle_post_wizard_def)
  from run_loop_inv [OF initial_inv this] run show ?thesis by simp
qed

subsection \<open>Marking before acting, and the growth of the seen set\<close>

lemmas loop_eval =
  handle_post_wizard_def iteration_def try_screen_def dismiss_screen_def then_do_def
  call_def skip_def scripted_page_def Let_def timeout_seconds_def all_screen_names_def
  configure_updates_screen_def close_notification_setup_def

lemma run_loop_Suc:
  "run_loop P screens t0 (Suc n) st =
     (case run_loop P screens t0 n st of
        (Some r, st') \<Rightarrow> (Some r, st')
      | (None, st') \<Rightarrow> iteration P screens t0 st')"
proof (induction n arbitrary: st)
  case 0
  show ?case by (simp split: prod.splits option.splits)
next
  case (Suc n)
  show ?case
  proof (cases "iteration P screens t0 st")
    case (Pair ri st1)
    show ?thesis
    proof (cases ri)
      case None
      with Pair Suc.IH [of st1] show ?thesis by simp
    next
      case (Some r)
      with Pair show ?thesis by simp
    qed
  qed
qed

lemma flicker_run:
  "handle_post_wizard flicker_page [screen_a, screen_b] (Suc (Suc (Suc 0))) 0 =
     (None,
      \<lparr>screens_seen = {''A''}, consecutive_no_match = 0, screen_found = True, world = 21 / 2,
       trace =
         [Visible ''A'' (Inr True), SeenAdd ''A'', ActionRun ''A'' None, ButtonWait ''A'' None,
          ButtonClick ''A'' None, HiddenWait ''A'' None, LoadWait ''A'' None,
          Visible ''A'' (Inr True), Visible ''B'' (Inr False),
          Visible ''A'' (Inr True), Visible ''B'' (Inr False)]\<rparr>)"
  by (simp add: loop_eval flicker_page_def screen_a_def screen_b_def)

text \<open>
  Claim C1. In every run of the loop, for every screen: each step of handling the screen
  (its action, the wait for its button, the click, the waits after it) comes after the
  insertion of its name into the seen set, and its action and its click are executed at
  most once, whatever the page shows afterwards.
\<close>

theorem mark_before_act:
  "let tr = trace (snd (handle_post_wizard P screens passes w0))
   in (\<forall>i < length tr. \<forall>n. handled_name (tr ! i) = Some n \<longrightarrow> (\<exists>j < i. tr ! j = SeenAdd n))
      \<and> (\<forall>n. length (filter (is_action_of n) tr) \<le> 1
              \<and> length (filter (is_click_of n) tr) \<le> 1)"
  using handle_post_wizard_inv [of screens P passes w0]
  by (simp add: loop_inv_def trace_inv_def Let_def)

theorem mark_before_act_witness:
  "trace (snd (handle_post_wizard flicker_page [screen_a, screen_b] (Suc (Suc (Suc 0))) 0)) =
     [Visible ''A'' (Inr True), SeenAdd ''A'', ActionRun ''A'' None, ButtonWait ''A'' None,
      ButtonClick ''A'' None, HiddenWait ''A'' None, LoadWait ''A'' None,
      Visible ''A'' (Inr True), Visible ''B'' (Inr False),
      Visible ''A'' (Inr True), Visible ''B'' (Inr False)]
   \<and> length (filter (is_action_of ''A'')
        (trace (snd (handle_post_wizard flicker_page [screen_a, screen_b] (Suc (Suc (Suc 0))) 0)))) \<le> 1
   \<and> length (filter (is_click_of ''A'')
        (trace (snd (handle_post_wizard flicker_page [screen_a, screen_b] (Suc (Suc (Suc 0))) 0)))) \<le> 1"
  using mark_before_act [of flicker_page "[screen_a, screen_b]" "Suc (Suc (Suc 0))" 0]
  by (simp add: flicker_run Let_def)

lemma a_then_b_run:
  "handle_post_wizard a_then_b_page [screen_a, screen_b] (Suc (Suc (Suc 0))) 0 =
     (Some AllHandled,
      \<lparr>screens_seen = {''A'', ''B''}, consecutive_no_match = 0, screen_found = True,
       world = 17,
       trace =
         [Visible ''A'' (Inr True), SeenAdd ''A'', ActionRun ''A'' None, ButtonWait ''A'' None,
          ButtonClick ''A'' None, HiddenWait ''A'' None, LoadWait ''A'' None,
          Visible ''A'' (Inr False), Visible ''B'' (Inr True), SeenAdd ''B'',
          ActionRun ''B'' None, HiddenWait ''B'' None, LoadWait ''B'' None]\<rparr>)"
  by (simp add: loop_eval a_then_b_page_def screen_a_def screen_b_def insert_commute)

lemma iteration_all_seen:
  assumes "screens_seen st = all_screen_names screens"
  shows "iteration P screens t0 st =
           (if clock P (world st) - t0 > timeout_seconds
            then Some (TimeoutError (sorted_list_of_set (screens_seen st)) [])
            else Some AllHandled, st)"
  using assms by (simp add: iteration_def Let_def)

text \<open>
  Claim C8. With \<open>S k\<close> the seen set after \<open>k\<close> passes of one run: \<open>S 0\<close> is empty, every
  \<open>S k\<close> is a subset of the catalog's names, \<open>S k\<close> is a subset of \<open>S (k + 1)\<close>, every name
  in it was added exactly once, and when \<open>S k\<close> is the whole set of names the loop has
  ended or ends at the next pass without changing anything.
\<close>

theorem seen_set_grows:
  "screens_seen (snd (handle_post_wizard P screens 0 w0)) = {}
   \<and> screens_seen (snd (handle_post_wizard P screens k w0)) \<subseteq> all_screen_names screens
   \<and> screens_seen (snd (handle_post_wizard P screens k w0))
       \<subseteq> screens_seen (snd (handle_post_wizard P screens (Suc k) w0))
   \<and> (\<forall>n. length (filter (is_add_of n) (trace (snd (handle_post_wizard P screens k w0)))) =
            (if n \<in> screens_seen (snd (handle_post_wizard P screens k w0)) then 1 else 0))
   \<and> (screens_seen (snd (handle_post_wizard P screens k w0)) = all_screen_names screens \<longrightarrow>
        fst (handle_post_wizard P screens (Suc k) w0) \<noteq> None
        \<and> snd (handle_post_wizard P screens (Suc k) w0) = snd (handle_post_wizard P screens k w0))"
proof -
  let ?init = "\<lparr>screens_seen = {}, consecutive_no_match = 0, screen_found = False,
                 world = w0, trace = []\<rparr>"
  obtain r st where k: "run_loop P screens (clock P w0) k ?init = (r, st)"
    by (cases "run_loop P screens (clock P w0) k ?init") simp
  obtain ri st1 where it: "iteration P screens (clock P w0) st = (ri, st1)"
    by (cases "iteration P screens (clock P w0) st") simp
  from k have hk: "handle_post_wizard P screens k w0 = (r, st)"
    by (simp add: handle_post_wizard_def)
  from k it have hs: "handle_post_wizard P screens (Suc k) w0 =
      (case r of Some x \<Rightarrow> (Some x, st) | None \<Rightarrow> (ri, st1))"
    unfolding handle_post_wizard_def run_loop_Suc by (simp split: option.splits)
  from handle_post_wizard_inv [of screens P k w0] hk
  have inv: "loop_inv (all_screen_names screens) st" by simp
  from iteration_inv [OF inv it] have mono: "screens_seen st \<subseteq> screens_seen st1" by simp
  have c1: "screens_seen (snd (handle_post_wizard P screens 0 w0)) = {}"
    by (simp add: handle_post_wizard_def)
  have c2: "screens_seen (snd (handle_post_wizard P screens k w0)) \<subseteq> all_screen_names screens"
    using inv hk by (simp add: loop_inv_def)
  have c3: "screens_seen (snd (handle_post_wizard P screens k w0))
       \<subseteq> screens_seen (snd (handle_post_wizard P screens (Suc k) w0))"
    using mono hk hs by (cases r) simp_all
  have c4: "\<forall>n. length (filter (is_add_of n) (trace (snd (handle_post_wizard P screens k w0)))) =
            (if n \<in> screens_seen (snd (handle_post_wizard P screens k w0)) then 1 else 0)"
    using inv hk by (simp add: loop_inv_def trace_inv_def)
  have c5: "screens_seen (snd (handle_post_wizard P screens k w0)) = all_screen_names screens \<longrightarrow>
        fst (handle_post_wizard P screens (Suc k) w0) \<noteq> None
        \<and> snd (handle_post_wizard P screens (Suc k) w0) = snd (handle_post_wizard P screens k w0)"
  proof
    assume "screens_seen (snd (handle_post_wizard P screens k w0)) = all_screen_names screens"
    with hk have "screens_seen st = all_screen_names screens" by simp
    from iteration_all_seen [OF this, of P "clock P w0"] it
    have "ri \<noteq> None" "st1 = st" by (auto split: if_splits)
    with hk hs show "fst (handle_post_wizard P screens (Suc k) w0) \<noteq> None
        \<and> snd (handle_post_wizard P screens (Suc k) w0) = snd (handle_post_wizard P screens k w0)"
      by (cases r) auto
  qed
  from c1 c2 c3 c4 c5 show ?thesis by blast
qed

lemma a_then_b_two_passes:
  "handle_post_wizard a_then_b_page [screen_a, screen_b] (Suc (Suc 0)) 0 =
     (None,
      \<lparr>screens_seen = {''A'', ''B''}, consecutive_no_match = 0, screen_found = True,
       world = 17,
       trace =
         [Visible ''A'' (Inr True), SeenAdd ''A'', ActionRun ''A'' None, ButtonWait ''A'' None,
          ButtonClick ''A'' None, HiddenWait ''A'' None, LoadWait ''A'' None,
          Visible ''A'' (Inr False), Visible ''B'' (Inr True), SeenAdd ''B'',
          ActionRun ''B'' None, HiddenWait ''B'' None, LoadWait ''B'' None]\<rparr>)"
  by (simp add: loop_eval a_then_b_page_def screen_a_def screen_b_def insert_commute)

theorem seen_set_grows_witness:
  "screens_seen (snd (handle_post_wizard a_then_b_page [screen_a, screen_b] 0 0)) = {}
   \<and> screens_seen (snd (handle_post_wizard a_then_b_page [screen_a, screen_b] (Suc (Suc 0)) 0))
       = {''A'', ''B''}
   \<and> all_screen_names [screen_a, screen_b] = {''A'', ''B''}
   \<and> fst (handle_post_wizard a_then_b_page [screen_a, screen_b] (Suc (Suc (Suc 0))) 0)
       = Some AllHandled
   \<and> snd (handle_post_wizard a_then_b_page [screen_a, screen_b] (Suc (Suc (Suc 0))) 0)
       = snd (handle_post_wizard a_then_b_page [screen_a, screen_b] (Suc (Suc 0)) 0)"
proof -
  have names: "all_screen_names [screen_a, screen_b] = {''A'', ''B''}"
    by (simp add: all_screen_names_def screen_a_def screen_b_def)
  have start: "screens_seen (snd (handle_post_wizard a_then_b_page [screen_a, screen_b] 0 0)) = {}"
    by (simp add: handle_post_wizard_def)
  from seen_set_grows [of a_then_b_page "[screen_a, screen_b]" 0 "Suc (Suc 0)"]
  show ?thesis
    by (simp add: a_then_b_run a_then_b_two_passes names start)
qed

subsection \<open>The events of one pass\<close>

lemma dismiss_events_not_visible:
  "dismiss_events n r evs \<Longrightarrow> e \<in> set evs \<Longrightarrow> \<not> is_seen_visible e"
  by (cases e) (auto simp: dismiss_events_def)

text \<open>
  The events one scan of the catalog adds: the flag is set exactly when one of them is a
  detection that returned true, and a wait for the network that returned normally can
  only be the last of them.
\<close>

lemma try_screen_trace:
  assumes "try_screen P s st = (rf, st')"
  shows "\<exists>ext. trace st' = trace st @ ext
           \<and> screen_found st' = (screen_found st \<or> (\<exists>e \<in> set ext. is_seen_visible e))
           \<and> (\<forall>m. LoadWait m None \<notin> set (butlast ext))
           \<and> (rf \<noteq> Inr Break \<longrightarrow> (\<forall>m. LoadWait m None \<notin> set ext))"
proof -
  let ?rv = "fst (is_visible P (screen_identifier s) (world st))"
  from try_screen_effect(3) [OF assms] show ?thesis
  proof (elim disjE conjE exE)
    assume "trace st' = trace st @ [Visible (name s) ?rv]"
    with try_screen_effect(2) [OF assms] show ?thesis by simp
  next
    fix r evs
    assume tr: "trace st' = trace st @ Visible (name s) ?rv # SeenAdd (name s) # evs"
      and rv: "?rv = Inr True"
      and ev: "dismiss_events (name s) r evs"
      and rf: "rf = (case r of None \<Rightarrow> Inr Break | Some e \<Rightarrow> Inl e)"
    from ev have nv: "\<forall>e \<in> set evs. \<not> is_seen_visible e"
      by (blast dest: dismiss_events_not_visible)
    from ev have bl: "\<forall>m. LoadWait m None \<notin> set (butlast evs)"
      and last: "r = None \<longleftrightarrow> (\<exists>m. LoadWait m None \<in> set evs)"
      by (simp_all add: dismiss_events_def)
    have "\<forall>m. LoadWait m None \<notin> set (butlast (Visible (name s) ?rv # SeenAdd (name s) # evs))"
      using bl by simp
    moreover have "rf \<noteq> Inr Break \<longrightarrow>
        (\<forall>m. LoadWait m None \<notin> set (Visible (name s) ?rv # SeenAdd (name s) # evs))"
      using rf last by (cases r) auto
    moreover have "screen_found st' =
        (screen_found st \<or> (\<exists>e \<in> set (Visible (name s) ?rv # SeenAdd (name s) # evs). is_seen_visible e))"
      using try_screen_effect(2) [OF assms] rv nv by simp
    ultimately show ?thesis using tr by blast
  qed
qed

lemma butlast_append_no:
  assumes "\<forall>m. LoadWait m None \<notin> set xs" and "\<forall>m. LoadWait m None \<notin> set (butlast ys)"
  shows "\<forall>m. LoadWait m None \<notin> set (butlast (xs @ ys))"
  using assms by (auto simp: butlast_append dest: in_set_butlastD)

lemma scan_screens_trace:
  assumes "scan_screens P screens st = (rs, st')"
  shows "\<exists>ext. trace st' = trace st @ ext
           \<and> screen_found st' = (screen_found st \<or> (\<exists>e \<in> set ext. is_seen_visible e))
           \<and> (\<forall>m. LoadWait m None \<notin> set (butlast ext))"
  using assms
proof (induction screens arbitrary: st)
  case Nil
  then show ?case by simp
next
  case (Cons s rest)
  obtain rf st1 where t: "try_screen P s st = (rf, st1)" by (cases "try_screen P s st") simp
  from try_screen_trace [OF t] obtain ext1 where e1:
    "trace st1 = trace st @ ext1"
    "screen_found st1 = (screen_found st \<or> (\<exists>e \<in> set ext1. is_seen_visible e))"
    "\<forall>m. LoadWait m None \<notin> set (butlast ext1)"
    "rf \<noteq> Inr Break \<longrightarrow> (\<forall>m. LoadWait m None \<notin> set ext1)"
    by blast
  show ?case
  proof (cases "rf = Inr Continue \<or> rf = Inl PlaywrightTimeoutError")
    case True
    with Cons.prems t have "scan_screens P rest st1 = (rs, st')" by auto
    from Cons.IH [OF this] obtain ext2 where e2:
      "trace st' = trace st1 @ ext2"
      "screen_found st' = (screen_found st1 \<or> (\<exists>e \<in> set ext2. is_seen_visible e))"
      "\<forall>m. LoadWait m None \<notin> set (butlast ext2)"
      by blast
    from True e1(4) have "\<forall>m. LoadWait m None \<notin> set ext1" by auto
    from butlast_append_no [OF this e2(3)] e1 e2
    have "trace st' = trace st @ (ext1 @ ext2)
        \<and> screen_found st' = (screen_found st \<or> (\<exists>e \<in> set (ext1 @ ext2). is_seen_visible e))
        \<and> (\<forall>m. LoadWait m None \<notin> set (butlast (ext1 @ ext2)))"
      by auto
    then show ?thesis by blast
  next
    case False
    then have "rf = Inr Break \<or> rf = Inl OtherException"
      by (cases rf) (auto intro: flow.exhaust page_exc.exhaust)
    with Cons.prems t have "st' = st1" by auto
    with e1 show ?thesis by blast
  qed
qed

lemma scan_screens_counter:
  "scan_screens P screens st = (rs, st') \<Longrightarrow> consecutive_no_match st' = consecutive_no_match st"
proof (induction screens arbitrary: st)
  case Nil
  then show ?case by simp
next
  case (Cons s rest)
  obtain rf st1 where t: "try_screen P s st = (rf, st1)" by (cases "try_screen P s st") simp
  from try_screen_effect(1) [OF t] have c: "consecutive_no_match st1 = consecutive_no_match st" .
  show ?case
  proof (cases "rf = Inr Continue \<or> rf = Inl PlaywrightTimeoutError")
    case True
    with Cons.prems t have "scan_screens P rest st1 = (rs, st')" by auto
    from Cons.IH [OF this] c show ?thesis by simp
  next
    case False
    then have "rf = Inr Break \<or> rf = Inl OtherException"
      by (cases rf) (auto intro: flow.exhaust page_exc.exhaust)
    with Cons.prems t have "st' = st1" by auto
    with c show ?thesis by simp
  qed
qed

text \<open>One pass that neither times out nor finds the catalog covered, in terms of its scan.\<close>

lemma iteration_scan:
  assumes "\<not> clock P (world st) - t0 > timeout_seconds"
      and "screens_seen st \<noteq> all_screen_names screens"
      and "scan_screens P screens (after_sleep P st) = (rs, st1)"
  shows "iteration P screens t0 st =
           (case rs of
              Some n \<Rightarrow> (Some (FatalError n), st1)
            | None \<Rightarrow>
                if screen_found st1 then (None, st1\<lparr>consecutive_no_match := 0\<rparr>)
                else (if consecutive_no_match st + 1 \<ge> 30 then Some NoScreensDetected else None,
                      st1\<lparr>consecutive_no_match := consecutive_no_match st + 1\<rparr>))"
proof -
  from scan_screens_counter [OF assms(3)]
  have "consecutive_no_match st1 = consecutive_no_match st" by (simp add: after_sleep_def)
  with assms show ?thesis
    by (auto simp: iteration_def after_sleep_def Let_def split: option.splits)
qed

subsection \<open>The idle counter\<close>

lemma handle_post_wizard_initial:
  "handle_post_wizard P screens passes w0 = run_loop P screens (clock P w0) passes (initial_state w0)"
  by (simp add: handle_post_wizard_def initial_state_def)

lemma try_screen_nothing_visible:
  assumes nv: "\<forall>sel w. fst (is_visible P sel w) = Inr False"
      and run: "try_screen P s st = (rf, st')"
  shows "rf = Inr Continue \<and> screens_seen st' = screens_seen st
         \<and> screen_found st' = screen_found st
         \<and> consecutive_no_match st' = consecutive_no_match st"
  using try_screen_effect [OF run] nv by auto

lemma scan_nothing_visible:
  assumes nv: "\<forall>sel w. fst (is_visible P sel w) = Inr False"
      and run: "scan_screens P screens st = (rs, st')"
  shows "rs = None \<and> screens_seen st' = screens_seen st \<and> screen_found st' = screen_found st"
  using run
proof (induction screens arbitrary: st)
  case Nil
  then show ?case by simp
next
  case (Cons s rest)
  obtain rf st1 where t: "try_screen P s st = (rf, st1)" by (cases "try_screen P s st") simp
  from try_screen_nothing_visible [OF nv t]
  have st1: "rf = Inr Continue" "screens_seen st1 = screens_seen st"
    "screen_found st1 = screen_found st" by simp_all
  with Cons.prems t have "scan_screens P rest st1 = (rs, st')" by simp
  from Cons.IH [OF this] st1 show ?case by simp
qed

lemma iteration_nothing_visible:
  assumes nv: "\<forall>sel w. fst (is_visible P sel w) = Inr False"
      and ne: "screens \<noteq> []" and empty: "screens_seen st = {}"
      and run: "iteration P screens t0 st = (r, st')"
  shows "screens_seen st' = {}
       \<and> (r = Some (TimeoutError [] (sorted_list_of_set (all_screen_names screens)))
          \<or> r = (if consecutive_no_match st + 1 \<ge> 30 then Some NoScreensDetected else None)
            \<and> consecutive_no_match st' = consecutive_no_match st + 1)"
proof (cases "clock P (world st) - t0 > timeout_seconds")
  case True
  with run empty show ?thesis by (auto simp: iteration_def Let_def)
next
  case False
  from ne empty have neq: "screens_seen st \<noteq> all_screen_names screens"
    by (cases screens) (auto simp: all_screen_names_def)
  obtain rs st1 where sc: "scan_screens P screens (after_sleep P st) = (rs, st1)"
    by (cases "scan_screens P screens (after_sleep P st)") simp
  from scan_nothing_visible [OF nv sc] empty
  have st1: "rs = None" "screens_seen st1 = {}" "\<not> screen_found st1"
    by (simp_all add: after_sleep_def)
  from iteration_scan [OF False neq sc] run st1 show ?thesis by auto
qed

lemma run_loop_nothing_visible:
  assumes nv: "\<forall>sel w. fst (is_visible P sel w) = Inr False" and ne: "screens \<noteq> []"
  shows "screens_seen st = {} \<Longrightarrow> consecutive_no_match st < 30
     \<Longrightarrow> 30 \<le> consecutive_no_match st + n
     \<Longrightarrow> run_loop P screens t0 n st = (r, st')
     \<Longrightarrow> screens_seen st' = {}
         \<and> (r = Some NoScreensDetected
            \<or> r = Some (TimeoutError [] (sorted_list_of_set (all_screen_names screens))))"
proof (induction n arbitrary: st)
  case 0
  then show ?case by simp
next
  case (Suc n)
  obtain ri st1 where it: "iteration P screens t0 st = (ri, st1)"
    by (cases "iteration P screens t0 st") simp
  from iteration_nothing_visible [OF nv ne Suc.prems(1) it]
  have st1: "screens_seen st1 = {}"
    and ri: "ri = Some (TimeoutError [] (sorted_list_of_set (all_screen_names screens)))
          \<or> ri = (if consecutive_no_match st + 1 \<ge> 30 then Some NoScreensDetected else None)
            \<and> consecutive_no_match st1 = consecutive_no_match st + 1"
    by simp_all
  show ?case
  proof (cases ri)
    case (Some x)
    with Suc.prems(4) it have "r = ri" "st' = st1" by simp_all
    with Some ri st1 show ?thesis by (auto split: if_splits)
  next
    case None
    with ri have c: "consecutive_no_match st1 = consecutive_no_match st + 1"
      "consecutive_no_match st + 1 < 30"
      by (auto split: if_splits)
    from None Suc.prems(4) it have "run_loop P screens t0 n st1 = (r, st')" by simp
    from Suc.IH [OF st1 _ _ this] c Suc.prems(3) show ?thesis by simp
  qed
qed

text \<open>
  Claim C3, as amended. In a pass that scans the catalog to its end or to a \<open>break\<close>,
  the idle counter is set to 0 when the detection of some entry returned true during the
  scan, whether or not its name is in the seen set, and is incremented otherwise; the loop
  ends successfully when the counter reaches 30. If no screen is ever visible and the
  catalog is not empty, thirty passes end the loop with nothing seen, by the idle path
  unless the timeout comes first, never by the full-coverage path.
\<close>

theorem idle_counter_rule:
  "(\<not> clock P (world st) - t0 > timeout_seconds
      \<and> screens_seen st \<noteq> all_screen_names screens
      \<and> iteration P screens t0 st = (r, st') \<and> (\<forall>n. r \<noteq> Some (FatalError n)) \<longrightarrow>
      (\<exists>ext. trace st' = trace st @ ext
         \<and> (if \<exists>e \<in> set ext. is_seen_visible e
            then consecutive_no_match st' = 0 \<and> r = None
            else consecutive_no_match st' = consecutive_no_match st + 1
                 \<and> r = (if consecutive_no_match st + 1 \<ge> 30 then Some NoScreensDetected
                        else None))))
   \<and> ((\<forall>sel w. fst (is_visible P sel w) = Inr False) \<and> screens \<noteq> [] \<and> 30 \<le> passes \<longrightarrow>
        (fst (handle_post_wizard P screens passes w0) = Some NoScreensDetected
         \<or> fst (handle_post_wizard P screens passes w0) =
             Some (TimeoutError [] (sorted_list_of_set (all_screen_names screens))))
        \<and> screens_seen (snd (handle_post_wizard P screens passes w0)) = {})"
proof (intro conjI impI)
  assume a: "\<not> clock P (world st) - t0 > timeout_seconds
      \<and> screens_seen st \<noteq> all_screen_names screens
      \<and> iteration P screens t0 st = (r, st') \<and> (\<forall>n. r \<noteq> Some (FatalError n))"
  obtain rs st1 where sc: "scan_screens P screens (after_sleep P st) = (rs, st1)"
    by (cases "scan_screens P screens (after_sleep P st)") simp
  from a have "\<not> clock P (world st) - t0 > timeout_seconds"
    "screens_seen st \<noteq> all_screen_names screens" by simp_all
  from iteration_scan [OF this sc] a
  have it: "(r, st') = (case rs of
              Some n \<Rightarrow> (Some (FatalError n), st1)
            | None \<Rightarrow>
                if screen_found st1 then (None, st1\<lparr>consecutive_no_match := 0\<rparr>)
                else (if consecutive_no_match st + 1 \<ge> 30 then Some NoScreensDetected else None,
                      st1\<lparr>consecutive_no_match := consecutive_no_match st + 1\<rparr>))"
    by simp
  from scan_screens_trace [OF sc] obtain ext where ext:
    "trace st1 = trace st @ ext"
    "screen_found st1 = (\<exists>e \<in> set ext. is_seen_visible e)"
    by (auto simp: after_sleep_def)
  from it a have rs: "rs = None" by (cases rs) auto
  from it rs ext have "trace st' = trace st @ ext
         \<and> (if \<exists>e \<in> set ext. is_seen_visible e
            then consecutive_no_match st' = 0 \<and> r = None
            else consecutive_no_match st' = consecutive_no_match st + 1
                 \<and> r = (if consecutive_no_match st + 1 \<ge> 30 then Some NoScreensDetected
                        else None))"
    by (auto split: if_splits)
  then show "\<exists>ext. trace st' = trace st @ ext
         \<and> (if \<exists>e \<in> set ext. is_seen_visible e
            then consecutive_no_match st' = 0 \<and> r = None
            else consecutive_no_match st' = consecutive_no_match st + 1
                 \<and> r = (if consecutive_no_match st + 1 \<ge> 30 then Some NoScreensDetected
                        else None))"
    by blast
next
  assume b: "(\<forall>sel w. fst (is_visible P sel w) = Inr False) \<and> screens \<noteq> [] \<and> 30 \<le> passes"
  obtain r' st'' where run: "run_loop P screens (clock P w0) passes (initial_state w0) = (r', st'')"
    by (cases "run_loop P screens (clock P w0) passes (initial_state w0)") simp
  from b have nv: "\<forall>sel w. fst (is_visible P sel w) = Inr False" and ne: "screens \<noteq> []"
    by simp_all
  from run_loop_nothing_visible [OF nv ne _ _ _ run] b
  have "screens_seen st'' = {}
         \<and> (r' = Some NoScreensDetected
            \<or> r' = Some (TimeoutError [] (sorted_list_of_set (all_screen_names screens))))"
    by (simp add: initial_state_def)
  with run show "fst (handle_post_wizard P screens passes w0) = Some NoScreensDetected
         \<or> fst (handle_post_wizard P screens passes w0) =
             Some (TimeoutError [] (sorted_list_of_set (all_screen_names screens)))"
    and "screens_seen (snd (handle_post_wizard P screens passes w0)) = {}"
    by (simp_all add: handle_post_wizard_initial)
qed

lemma blank_first_pass:
  "iteration blank_page [screen_a] 0 (initial_state 0) =
     (None, \<lparr>screens_seen = {}, consecutive_no_match = 1, screen_found = False,
             world = 1, trace = [Visible ''A'' (Inr False)]\<rparr>)"
  by (simp add: loop_eval blank_page_def screen_a_def initial_state_def)

lemma blank_run:
  "fst (handle_post_wizard blank_page [screen_a] 30 0) = Some NoScreensDetected"
  by (simp add: loop_eval blank_page_def screen_a_def eval_nat_numeral)

theorem idle_counter_rule_witness:
  "consecutive_no_match (snd (iteration blank_page [screen_a] 0 (initial_state 0))) = 1
   \<and> fst (iteration blank_page [screen_a] 0 (initial_state 0)) = None
   \<and> fst (handle_post_wizard blank_page [screen_a] 30 0) = Some NoScreensDetected
   \<and> screens_seen (snd (handle_post_wizard blank_page [screen_a] 30 0)) = {}"
proof -
  have blank: "\<forall>sel w. fst (is_visible blank_page sel w) = Inr False"
    by (simp add: blank_page_def scripted_page_def)
  have early: "\<not> clock blank_page (world (initial_state 0)) - 0 > timeout_seconds"
    by (simp add: blank_page_def scripted_page_def initial_state_def timeout_seconds_def)
  have uncovered: "screens_seen (initial_state (0::real)) \<noteq> all_screen_names [screen_a]"
    by (simp add: initial_state_def all_screen_names_def)
  have h1: "\<not> clock blank_page (world (initial_state 0)) - 0 > timeout_seconds
      \<and> screens_seen (initial_state (0::real)) \<noteq> all_screen_names [screen_a]
      \<and> iteration blank_page [screen_a] 0 (initial_state 0) =
          (None, \<lparr>screens_seen = {}, consecutive_no_match = 1, screen_found = False,
             world = 1, trace = [Visible ''A'' (Inr False)]\<rparr>)
      \<and> (\<forall>n. None \<noteq> Some (FatalError n))"
    using early uncovered blank_first_pass by simp
  have h2: "(\<forall>sel w. fst (is_visible blank_page sel w) = Inr False)
      \<and> [screen_a] \<noteq> [] \<and> (30::nat) \<le> 30"
    by (simp add: blank)
  from idle_counter_rule [of blank_page "initial_state 0" 0 "[screen_a]" None
      "\<lparr>screens_seen = {}, consecutive_no_match = 1, screen_found = False,
             world = 1, trace = [Visible ''A'' (Inr False)]\<rparr>" 30 0] h1 h2
  have "screens_seen (snd (handle_post_wizard blank_page [screen_a] 30 0)) = {}"
    by blast
  with blank_first_pass blank_run show ?thesis by simp
qed

theorem idle_counter_rule_counterexample:
  "handle_post_wizard flicker_page [screen_a, screen_b] (Suc 0) 0 =
     (None,
      \<lparr>screens_seen = {''A''}, consecutive_no_match = 0, screen_found = True, world = 17 / 2,
       trace =
         [Visible ''A'' (Inr True), SeenAdd ''A'', ActionRun ''A'' None, ButtonWait ''A'' None,
          ButtonClick ''A'' None, HiddenWait ''A'' None, LoadWait ''A'' None]\<rparr>)
   \<and> handle_post_wizard flicker_page [screen_a, screen_b] (Suc (Suc (Suc 0))) 0 =
     (None,
      \<lparr>screens_seen = {''A''}, consecutive_no_match = 0, screen_found = True, world = 21 / 2,
       trace =
         [Visible ''A'' (Inr True), SeenAdd ''A'', ActionRun ''A'' None, ButtonWait ''A'' None,
          ButtonClick ''A'' None, HiddenWait ''A'' None, LoadWait ''A'' None,
          Visible ''A'' (Inr True), Visible ''B'' (Inr False),
          Visible ''A'' (Inr True), Visible ''B'' (Inr False)]\<rparr>)"
  by (simp add: loop_eval flicker_page_def screen_a_def screen_b_def)

subsection \<open>The two checks at the head of a pass\<close>

lemma missing_neq: "x \<in> B \<Longrightarrow> x \<notin> A \<Longrightarrow> A \<noteq> B"
  by auto

lemma five_not_covered:
  "{''B'', ''A''} \<noteq> {''A'', ''B'', ''C'', ''D'', ''E''}"
  "{''C'', ''B'', ''A''} \<noteq> {''A'', ''B'', ''C'', ''D'', ''E''}"
  "{''D'', ''C'', ''B'', ''A''} \<noteq> {''A'', ''B'', ''C'', ''D'', ''E''}"
  by (rule missing_neq [of "''E''"]; simp)+

lemma six_not_covered:
  "{''B'', ''A''} \<noteq> {''A'', ''B'', ''C'', ''D'', ''E'', ''F''}"
  "{''C'', ''B'', ''A''} \<noteq> {''A'', ''B'', ''C'', ''D'', ''E'', ''F''}"
  "{''D'', ''C'', ''B'', ''A''} \<noteq> {''A'', ''B'', ''C'', ''D'', ''E'', ''F''}"
  "{''E'', ''D'', ''C'', ''B'', ''A''} \<noteq> {''A'', ''B'', ''C'', ''D'', ''E'', ''F''}"
  by (rule missing_neq [of "''F''"]; simp)+

lemma five_covered:
  "{''E'', ''D'', ''C'', ''B'', ''A''} = {''A'', ''B'', ''C'', ''D'', ''E''}"
  by auto

lemma slow_run:
  "fst (handle_post_wizard slow_page five_screens (Suc (Suc (Suc (Suc (Suc (Suc 0)))))) 0) =
     Some (TimeoutError [''A'', ''B'', ''C'', ''D'', ''E''] [])
   \<and> screens_seen (snd (handle_post_wizard slow_page five_screens
        (Suc (Suc (Suc (Suc (Suc (Suc 0)))))) 0)) = {''A'', ''B'', ''C'', ''D'', ''E''}"
  by (simp add: loop_eval slow_page_def five_screens_def screen_a_def screen_b_def
      screen_c_def screen_d_def screen_e_def five_not_covered five_covered)

lemma slow_run_six:
  "fst (handle_post_wizard slow_page (five_screens @ [screen_f])
         (Suc (Suc (Suc (Suc (Suc (Suc 0)))))) 0) =
     Some (TimeoutError [''A'', ''B'', ''C'', ''D'', ''E''] [''F''])
   \<and> screens_seen (snd (handle_post_wizard slow_page (five_screens @ [screen_f])
        (Suc (Suc (Suc (Suc (Suc (Suc 0)))))) 0)) = {''A'', ''B'', ''C'', ''D'', ''E''}"
  by (simp add: loop_eval slow_page_def five_screens_def screen_a_def screen_b_def
      screen_c_def screen_d_def screen_e_def screen_f_def six_not_covered five_covered)

text \<open>
  Claim C4, as amended. Each pass checks the timeout first and the coverage second. When
  a pass starts with every catalog name seen and the loop still running, the loop ends
  in that pass without sleeping, scanning or consulting the idle counter: by the
  full-coverage path if no more than 300 seconds have elapsed, and with the timeout error
  (all names seen, none missing) if more have.
\<close>

theorem full_coverage_exit:
  "screens_seen (snd (handle_post_wizard P screens k w0)) = all_screen_names screens
     \<and> fst (handle_post_wizard P screens k w0) = None \<longrightarrow>
   handle_post_wizard P screens (Suc k) w0 =
     (if clock P (world (snd (handle_post_wizard P screens k w0))) - clock P w0 > timeout_seconds
      then Some (TimeoutError (sorted_list_of_set (all_screen_names screens)) [])
      else Some AllHandled,
      snd (handle_post_wizard P screens k w0))"
proof
  assume a: "screens_seen (snd (handle_post_wizard P screens k w0)) = all_screen_names screens
     \<and> fst (handle_post_wizard P screens k w0) = None"
  obtain st where k: "handle_post_wizard P screens k w0 = (None, st)"
    using a by (cases "handle_post_wizard P screens k w0") simp
  with a have seen: "screens_seen st = all_screen_names screens" by simp
  from k have "run_loop P screens (clock P w0) k (initial_state w0) = (None, st)"
    by (simp add: handle_post_wizard_initial)
  then have "handle_post_wizard P screens (Suc k) w0 = iteration P screens (clock P w0) st"
    unfolding handle_post_wizard_initial run_loop_Suc by simp
  with iteration_all_seen [OF seen, of P "clock P w0"] k seen
  show "handle_post_wizard P screens (Suc k) w0 =
     (if clock P (world (snd (handle_post_wizard P screens k w0))) - clock P w0 > timeout_seconds
      then Some (TimeoutError (sorted_list_of_set (all_screen_names screens)) [])
      else Some AllHandled,
      snd (handle_post_wizard P screens k w0))"
    by simp
qed

theorem full_coverage_exit_witness:
  "handle_post_wizard a_then_b_page [screen_a, screen_b] (Suc (Suc (Suc 0))) 0 =
     (Some AllHandled, snd (handle_post_wizard a_then_b_page [screen_a, screen_b] (Suc (Suc 0)) 0))
   \<and> screens_seen (snd (handle_post_wizard a_then_b_page [screen_a, screen_b] (Suc (Suc 0)) 0)) =
       all_screen_names [screen_a, screen_b]
   \<and> fst (handle_post_wizard a_then_b_page [screen_a, screen_b] (Suc (Suc 0)) 0) = None"
proof -
  have names: "all_screen_names [screen_a, screen_b] = {''A'', ''B''}"
    by (simp add: all_screen_names_def screen_a_def screen_b_def)
  from full_coverage_exit [of a_then_b_page "[screen_a, screen_b]" "Suc (Suc 0)" 0]
  show ?thesis
    by (simp add: a_then_b_run a_then_b_two_passes names)
qed

theorem full_coverage_exit_counterexample:
  "screens_seen (snd (handle_post_wizard slow_page five_screens
      (Suc (Suc (Suc (Suc (Suc (Suc 0)))))) 0)) = all_screen_names five_screens
   \<and> fst (handle_post_wizard slow_page five_screens (Suc (Suc (Suc (Suc (Suc (Suc 0)))))) 0) =
       Some (TimeoutError [''A'', ''B'', ''C'', ''D'', ''E''] [])
   \<and> fst (handle_post_wizard slow_page five_screens (Suc (Suc (Suc (Suc (Suc (Suc 0)))))) 0) \<noteq>
       Some AllHandled"
proof -
  have names: "all_screen_names five_screens = {''A'', ''B'', ''C'', ''D'', ''E''}"
    by (simp add: all_screen_names_def five_screens_def screen_a_def screen_b_def
        screen_c_def screen_d_def screen_e_def)
  from slow_run show ?thesis by (simp add: names)
qed

lemma iteration_timeout:
  assumes "iteration P screens t0 st = (Some (TimeoutError sl ul), st')"
  shows "st' = st \<and> sl = sorted_list_of_set (screens_seen st)
       \<and> ul = sorted_list_of_set (all_screen_names screens - screens_seen st)
       \<and> clock P (world st) - t0 > timeout_seconds"
proof (cases "clock P (world st) - t0 > timeout_seconds")
  case True
  with assms show ?thesis by (auto simp: iteration_def Let_def)
next
  case False
  show ?thesis
  proof (cases "screens_seen st = all_screen_names screens")
    case True
    with False assms show ?thesis by (simp add: iteration_def Let_def)
  next
    case neq: False
    obtain rs st1 where sc: "scan_screens P screens (after_sleep P st) = (rs, st1)"
      by (cases "scan_screens P screens (after_sleep P st)") simp
    from iteration_scan [OF False neq sc] assms show ?thesis
      by (auto split: option.splits if_splits)
  qed
qed

lemma run_loop_timeout:
  "run_loop P screens t0 n st = (Some (TimeoutError sl ul), st') \<Longrightarrow>
     sl = sorted_list_of_set (screens_seen st')
   \<and> ul = sorted_list_of_set (all_screen_names screens - screens_seen st')
   \<and> clock P (world st') - t0 > timeout_seconds"
proof (induction n arbitrary: st)
  case 0
  then show ?case by simp
next
  case (Suc n)
  obtain ri st1 where it: "iteration P screens t0 st = (ri, st1)"
    by (cases "iteration P screens t0 st") simp
  show ?case
  proof (cases ri)
    case None
    with Suc.prems it have "run_loop P screens t0 n st1 = (Some (TimeoutError sl ul), st')"
      by simp
    then show ?thesis by (rule Suc.IH)
  next
    case (Some x)
    with Suc.prems it have "iteration P screens t0 st = (Some (TimeoutError sl ul), st')"
      by simp
    from iteration_timeout [OF this] show ?thesis by simp
  qed
qed

text \<open>
  Claim C5. A pass that starts more than 300 seconds after the loop began ends the loop
  with the timeout error, and whenever a run ends with that error its two lists are the
  sorted seen names and the sorted catalog names not seen: together they are the
  catalog's names, they share no name, and their lengths are the number \<open>n\<close> of seen names
  and \<open>N - n\<close>.
\<close>

theorem timeout_diagnostic:
  "(clock P (world st) - t0 > timeout_seconds \<longrightarrow>
      iteration P screens t0 st =
        (Some (TimeoutError (sorted_list_of_set (screens_seen st))
                 (sorted_list_of_set (all_screen_names screens - screens_seen st))), st))
   \<and> (fst (handle_post_wizard P screens passes w0) = Some (TimeoutError seen_names unseen_names) \<longrightarrow>
        set seen_names = screens_seen (snd (handle_post_wizard P screens passes w0))
      \<and> set unseen_names =
          all_screen_names screens - screens_seen (snd (handle_post_wizard P screens passes w0))
      \<and> set seen_names \<union> set unseen_names = all_screen_names screens
      \<and> set seen_names \<inter> set unseen_names = {}
      \<and> distinct seen_names \<and> distinct unseen_names
      \<and> length seen_names = card (screens_seen (snd (handle_post_wizard P screens passes w0)))
      \<and> length unseen_names = card (all_screen_names screens) - length seen_names
      \<and> clock P (world (snd (handle_post_wizard P screens passes w0))) - clock P w0
          > timeout_seconds)"
proof (intro conjI impI)
  assume "clock P (world st) - t0 > timeout_seconds"
  then show "iteration P screens t0 st =
        (Some (TimeoutError (sorted_list_of_set (screens_seen st))
                 (sorted_list_of_set (all_screen_names screens - screens_seen st))), st)"
    by (simp add: iteration_def Let_def)
next
  assume a: "fst (handle_post_wizard P screens passes w0) = Some (TimeoutError seen_names unseen_names)"
  obtain st' where run: "handle_post_wizard P screens passes w0 =
      (Some (TimeoutError seen_names unseen_names), st')"
    using a by (cases "handle_post_wizard P screens passes w0") simp
  then have "run_loop P screens (clock P w0) passes (initial_state w0) =
      (Some (TimeoutError seen_names unseen_names), st')"
    by (simp add: handle_post_wizard_initial)
  from run_loop_timeout [OF this]
  have sl: "seen_names = sorted_list_of_set (screens_seen st')"
    and ul: "unseen_names = sorted_list_of_set (all_screen_names screens - screens_seen st')"
    and late: "clock P (world st') - clock P w0 > timeout_seconds"
    by simp_all
  from handle_post_wizard_inv [of screens P passes w0] run
  have sub: "screens_seen st' \<subseteq> all_screen_names screens" by (simp add: loop_inv_def)
  have fin: "finite (all_screen_names screens)" by (simp add: all_screen_names_def)
  from sub fin have fs: "finite (screens_seen st')" by (rule finite_subset)
  from fin have fu: "finite (all_screen_names screens - screens_seen st')" by simp
  have facts: "set seen_names = screens_seen st'"
    "set unseen_names = all_screen_names screens - screens_seen st'"
    "distinct seen_names" "distinct unseen_names"
    "length seen_names = card (screens_seen st')"
    "length unseen_names = card (all_screen_names screens) - length seen_names"
    using fs fu sub fin by (simp_all add: sl ul card_Diff_subset)
  from facts sub run late
  show "set seen_names = screens_seen (snd (handle_post_wizard P screens passes w0))"
    and "set unseen_names =
          all_screen_names screens - screens_seen (snd (handle_post_wizard P screens passes w0))"
    and "set seen_names \<union> set unseen_names = all_screen_names screens"
    and "set seen_names \<inter> set unseen_names = {}"
    and "distinct seen_names" and "distinct unseen_names"
    and "length seen_names = card (screens_seen (snd (handle_post_wizard P screens passes w0)))"
    and "length unseen_names = card (all_screen_names screens) - length seen_names"
    and "clock P (world (snd (handle_post_wizard P screens passes w0))) - clock P w0
          > timeout_seconds"
    by auto
qed

theorem timeout_diagnostic_witness:
  "fst (handle_post_wizard slow_page (five_screens @ [screen_f])
         (Suc (Suc (Suc (Suc (Suc (Suc 0)))))) 0) =
     Some (TimeoutError [''A'', ''B'', ''C'', ''D'', ''E''] [''F''])
   \<and> set [''A'', ''B'', ''C'', ''D'', ''E''] \<union> set [''F''] =
       all_screen_names (five_screens @ [screen_f])
   \<and> set [''A'', ''B'', ''C'', ''D'', ''E''] =
       screens_seen (snd (handle_post_wizard slow_page (five_screens @ [screen_f])
         (Suc (Suc (Suc (Suc (Suc (Suc 0)))))) 0))"
proof -
  from slow_run_six
  have run: "fst (handle_post_wizard slow_page (five_screens @ [screen_f])
         (Suc (Suc (Suc (Suc (Suc (Suc 0)))))) 0) =
     Some (TimeoutError [''A'', ''B'', ''C'', ''D'', ''E''] [''F''])"
    by simp
  from timeout_diagnostic [of slow_page "initial_state 0" 0 "five_screens @ [screen_f]"
      "Suc (Suc (Suc (Suc (Suc (Suc 0)))))" 0
      "[''A'', ''B'', ''C'', ''D'', ''E'']" "[''F'']"] run
  have "set [''A'', ''B'', ''C'', ''D'', ''E''] \<union> set [''F''] =
       all_screen_names (five_screens @ [screen_f])"
    and "set [''A'', ''B'', ''C'', ''D'', ''E''] =
       screens_seen (snd (handle_post_wizard slow_page (five_screens @ [screen_f])
         (Suc (Suc (Suc (Suc (Suc (Suc 0)))))) 0))"
    by blast+
  with run show ?thesis by blast
qed

subsection \<open>One completed handling per pass\<close>

lemma stuck_button_run:
  "handle_post_wizard stuck_button_page [screen_a, screen_c] (Suc (Suc 0)) 0 =
    (Some AllHandled,
      \<lparr>screens_seen = {''C'', ''A''}, consecutive_no_match = 0,
       screen_found = True, world = 19 / 2,
       trace =
         [Visible ''A'' (Inr True), SeenAdd ''A'', ActionRun ''A'' None,
          ButtonWait ''A'' (Some PlaywrightTimeoutError),
          Visible ''C'' (Inr True), SeenAdd ''C'', ButtonWait ''C'' None,
          ButtonClick ''C'' None, HiddenWait ''C'' None,
          LoadWait ''C'' None]\<rparr>)"
  by (simp add: loop_eval stuck_button_page_def screen_a_def screen_c_def insert_commute)

lemma busy_run:
  "handle_post_wizard busy_page [screen_a, screen_c] (Suc 0) 0 =
     (None,
      \<lparr>screens_seen = {''C'', ''A''}, consecutive_no_match = 0,
       screen_found = True, world = 31 / 2,
       trace =
         [Visible ''A'' (Inr True), SeenAdd ''A'', ActionRun ''A'' None,
          ButtonWait ''A'' None, ButtonClick ''A'' None,
          HiddenWait ''A'' None, LoadWait ''A'' (Some PlaywrightTimeoutError),
          Visible ''C'' (Inr True), SeenAdd ''C'', ButtonWait ''C'' None,
          ButtonClick ''C'' None, HiddenWait ''C'' None,
          LoadWait ''C'' None]\<rparr>)"
  by (simp add: loop_eval busy_page_def screen_a_def screen_c_def)

lemma broken_query_run:
  "handle_post_wizard broken_query_page [screen_a, screen_c] (Suc 0) 0 =
     (Some (FatalError ''A''),
      \<lparr>screens_seen = {}, consecutive_no_match = 0, screen_found = False,
       world = 1, trace = [Visible ''A'' (Inl OtherException)]\<rparr>)"
  by (simp add: loop_eval broken_query_page_def screen_a_def screen_c_def)

lemma is_completed_iff: "is_completed e \<longleftrightarrow> (\<exists>m. e = LoadWait m None)"
  by (cases e) auto

lemma no_completion_follows:
  assumes "\<forall>m. LoadWait m None \<notin> set (butlast ext)"
  shows "(\<forall>pre m post. ext = pre @ LoadWait m None # post \<longrightarrow> post = [])
       \<and> length (filter is_completed ext) \<le> 1"
proof
  show "\<forall>pre m post. ext = pre @ LoadWait m None # post \<longrightarrow> post = []"
  proof (intro allI impI)
    fix pre m post
    assume e: "ext = pre @ LoadWait m None # post"
    show "post = []"
    proof (rule ccontr)
      assume "post \<noteq> []"
      with e have "butlast ext = pre @ LoadWait m None # butlast post"
        by (simp add: butlast_append)
      with assms show False by auto
    qed
  qed
next
  have none: "filter is_completed (butlast ext) = []"
  proof -
    have "\<not> is_completed e" if "e \<in> set (butlast ext)" for e
      using that assms by (auto simp: is_completed_iff)
    then show ?thesis by (simp add: filter_empty_conv)
  qed
  show "length (filter is_completed ext) \<le> 1"
  proof (cases "ext = []")
    case True
    then show ?thesis by simp
  next
    case False
    then have "ext = butlast ext @ [last ext]" by simp
    then have "filter is_completed ext = filter is_completed (butlast ext @ [last ext])"
      by simp
    with none show ?thesis by simp
  qed
qed

lemma iteration_trace:
  assumes "iteration P screens t0 st = (r, st')"
  shows "\<exists>ext. trace st' = trace st @ ext \<and> (\<forall>m. LoadWait m None \<notin> set (butlast ext))"
proof (cases "clock P (world st) - t0 > timeout_seconds
               \<or> screens_seen st = all_screen_names screens")
  case True
  with assms have "st' = st" by (auto simp: iteration_def Let_def split: if_splits)
  then show ?thesis by simp
next
  case False
  obtain rs st1 where sc: "scan_screens P screens (after_sleep P st) = (rs, st1)"
    by (cases "scan_screens P screens (after_sleep P st)") simp
  from False have "\<not> clock P (world st) - t0 > timeout_seconds"
    "screens_seen st \<noteq> all_screen_names screens" by simp_all
  from iteration_scan [OF this sc] assms have "trace st' = trace st1"
    by (auto split: option.splits if_splits)
  with scan_screens_trace [OF sc] show ?thesis by (auto simp: after_sleep_def)
qed

text \<open>
  Claim C9, as amended. In every pass at most one screen is handled to completion (its
  wait for the network returned normally), and nothing follows that in the pass: the scan
  stops at the \<open>break\<close>. A handling that stops with a Playwright timeout does not stop the
  scan, which goes on to the next catalog entry.
\<close>

theorem one_completion_per_pass:
  "(iteration P screens t0 st = (r, st') \<longrightarrow>
      (\<exists>ext. trace st' = trace st @ ext
         \<and> length (filter is_completed ext) \<le> 1
         \<and> (\<forall>pre m post. ext = pre @ LoadWait m None # post \<longrightarrow> post = [])))
   \<and> (try_screen P s sa = (Inr Break, sb) \<longrightarrow> scan_screens P (s # rest) sa = (None, sb))
   \<and> (try_screen P s sa = (Inl PlaywrightTimeoutError, sb) \<longrightarrow>
        scan_screens P (s # rest) sa = scan_screens P rest sb)"
proof (intro conjI impI)
  assume "iteration P screens t0 st = (r, st')"
  from iteration_trace [OF this] obtain ext where
    "trace st' = trace st @ ext" "\<forall>m. LoadWait m None \<notin> set (butlast ext)" by blast
  with no_completion_follows [of ext]
  show "\<exists>ext. trace st' = trace st @ ext
         \<and> length (filter is_completed ext) \<le> 1
         \<and> (\<forall>pre m post. ext = pre @ LoadWait m None # post \<longrightarrow> post = [])"
    by blast
next
  assume "try_screen P s sa = (Inr Break, sb)"
  then show "scan_screens P (s # rest) sa = (None, sb)" by simp
next
  assume "try_screen P s sa = (Inl PlaywrightTimeoutError, sb)"
  then show "scan_screens P (s # rest) sa = scan_screens P rest sb" by simp
qed

lemma a_then_b_first_pass:
  "iteration a_then_b_page [screen_a, screen_b] 0 (initial_state 0) =
     (None,
      \<lparr>screens_seen = {''A''}, consecutive_no_match = 0, screen_found = True, world = 17 / 2,
       trace =
         [Visible ''A'' (Inr True), SeenAdd ''A'', ActionRun ''A'' None, ButtonWait ''A'' None,
          ButtonClick ''A'' None, HiddenWait ''A'' None, LoadWait ''A'' None]\<rparr>)"
  by (simp add: loop_eval a_then_b_page_def screen_a_def screen_b_def initial_state_def)

lemma a_then_b_first_try:
  "try_screen a_then_b_page screen_a (after_sleep a_then_b_page (initial_state 0)) =
     (Inr Break,
      \<lparr>screens_seen = {''A''}, consecutive_no_match = 0, screen_found = True, world = 17 / 2,
       trace =
         [Visible ''A'' (Inr True), SeenAdd ''A'', ActionRun ''A'' None, ButtonWait ''A'' None,
          ButtonClick ''A'' None, HiddenWait ''A'' None, LoadWait ''A'' None]\<rparr>)"
  by (simp add: loop_eval a_then_b_page_def screen_a_def initial_state_def after_sleep_def)

theorem one_completion_per_pass_witness:
  "iteration a_then_b_page [screen_a, screen_b] 0 (initial_state 0) =
     (None,
      \<lparr>screens_seen = {''A''}, consecutive_no_match = 0, screen_found = True, world = 17 / 2,
       trace =
         [Visible ''A'' (Inr True), SeenAdd ''A'', ActionRun ''A'' None, ButtonWait ''A'' None,
          ButtonClick ''A'' None, HiddenWait ''A'' None, LoadWait ''A'' None]\<rparr>)
   \<and> scan_screens a_then_b_page [screen_a, screen_b]
        (after_sleep a_then_b_page (initial_state 0)) =
     (None,
      \<lparr>screens_seen = {''A''}, consecutive_no_match = 0, screen_found = True, world = 17 / 2,
       trace =
         [Visible ''A'' (Inr True), SeenAdd ''A'', ActionRun ''A'' None, ButtonWait ''A'' None,
          ButtonClick ''A'' None, HiddenWait ''A'' None, LoadWait ''A'' None]\<rparr>)"
proof -
  let ?st1 = "\<lparr>screens_seen = {''A''}, consecutive_no_match = 0, screen_found = True,
       world = 17 / 2,
       trace =
         [Visible ''A'' (Inr True), SeenAdd ''A'', ActionRun ''A'' None, ButtonWait ''A'' None,
          ButtonClick ''A'' None, HiddenWait ''A'' None, LoadWait ''A'' None]\<rparr>"
  from one_completion_per_pass [where P = a_then_b_page and screens = "[screen_a, screen_b]"
      and ?t0.0 = 0 and st = "initial_state 0" and r = None and st' = ?st1 and s = screen_a
      and sa = "after_sleep a_then_b_page (initial_state 0)" and sb = ?st1
      and rest = "[screen_b]"]
    a_then_b_first_try
  have "scan_screens a_then_b_page [screen_a, screen_b]
        (after_sleep a_then_b_page (initial_state 0)) = (None, ?st1)"
    by blast
  with a_then_b_first_pass show ?thesis by simp
qed

theorem one_completion_per_pass_counterexample:
  "handle_post_wizard busy_page [screen_a, screen_c] (Suc 0) 0 =
     (None,
      \<lparr>screens_seen = {''C'', ''A''}, consecutive_no_match = 0,
       screen_found = True, world = 31 / 2,
       trace =
         [Visible ''A'' (Inr True), SeenAdd ''A'', ActionRun ''A'' None,
          ButtonWait ''A'' None, ButtonClick ''A'' None,
          HiddenWait ''A'' None, LoadWait ''A'' (Some PlaywrightTimeoutError),
          Visible ''C'' (Inr True), SeenAdd ''C'', ButtonWait ''C'' None,
          ButtonClick ''C'' None, HiddenWait ''C'' None,
          LoadWait ''C'' None]\<rparr>)"
  by (rule busy_run)

subsection \<open>Which exceptions end the loop\<close>

text \<open>
  Claim C2, as amended. When a matched screen has a button and the bounded wait for it
  raises, a Playwright timeout is swallowed: the screen stays in the seen set, it is not
  clicked, no error is raised and the scan goes on with the next catalog entry in the same
  pass. Any other exception from that wait ends the scan with the fatal error naming the
  screen, and no later catalog entry is looked at.
\<close>

theorem button_wait_timeout_swallowed:
  "is_visible P (screen_identifier s) (world st) = (Inr True, w1)
   \<and> name s \<notin> screens_seen st
   \<and> (case action s of None \<Rightarrow> (None, w1) | Some act \<Rightarrow> run_action P act w1) = (None, w2)
   \<and> button s = Some b
   \<and> wait_for P b StateVisible 10000 w2 = (Some e, w3) \<longrightarrow>
   scan_screens P (s # rest) st =
     (if e = PlaywrightTimeoutError
      then scan_screens P rest
             (st\<lparr>screens_seen := insert (name s) (screens_seen st), screen_found := True,
                 world := w3,
                 trace := trace st @ [Visible (name s) (Inr True), SeenAdd (name s)]
                   @ (case action s of None \<Rightarrow> [] | Some act \<Rightarrow> [ActionRun (name s) None])
                   @ [ButtonWait (name s) (Some e)]\<rparr>)
      else (Some (name s),
            st\<lparr>screens_seen := insert (name s) (screens_seen st), screen_found := True,
                world := w3,
                trace := trace st @ [Visible (name s) (Inr True), SeenAdd (name s)]
                  @ (case action s of None \<Rightarrow> [] | Some act \<Rightarrow> [ActionRun (name s) None])
                  @ [ButtonWait (name s) (Some e)]\<rparr>))"
proof
  assume a: "is_visible P (screen_identifier s) (world st) = (Inr True, w1)
   \<and> name s \<notin> screens_seen st
   \<and> (case action s of None \<Rightarrow> (None, w1) | Some act \<Rightarrow> run_action P act w1) = (None, w2)
   \<and> button s = Some b
   \<and> wait_for P b StateVisible 10000 w2 = (Some e, w3)"
  let ?st3 = "st\<lparr>screens_seen := insert (name s) (screens_seen st), screen_found := True,
                 world := w3,
                 trace := trace st @ [Visible (name s) (Inr True), SeenAdd (name s)]
                   @ (case action s of None \<Rightarrow> [] | Some act \<Rightarrow> [ActionRun (name s) None])
                   @ [ButtonWait (name s) (Some e)]\<rparr>"
  have t: "try_screen P s st = (Inl e, ?st3)"
  proof (cases "action s")
    case None
    with a show ?thesis
      by (simp add: try_screen_def dismiss_screen_def then_do_def call_def skip_def)
  next
    case (Some act)
    with a show ?thesis
      by (simp add: try_screen_def dismiss_screen_def then_do_def call_def skip_def)
  qed
  show "scan_screens P (s # rest) st =
     (if e = PlaywrightTimeoutError then scan_screens P rest ?st3 else (Some (name s), ?st3))"
    using t by (cases e) simp_all
qed

theorem button_wait_timeout_swallowed_witness:
  "scan_screens stuck_button_page [screen_a, screen_c]
      (after_sleep stuck_button_page (initial_state 0)) =
   scan_screens stuck_button_page [screen_c]
     \<lparr>screens_seen = {''A''}, consecutive_no_match = 0, screen_found = True, world = 5 / 2,
      trace = [Visible ''A'' (Inr True), SeenAdd ''A'', ActionRun ''A'' None,
               ButtonWait ''A'' (Some PlaywrightTimeoutError)]\<rparr>"
proof -
  have h: "is_visible stuck_button_page (screen_identifier screen_a)
        (world (after_sleep stuck_button_page (initial_state 0))) = (Inr True, 1)
   \<and> name screen_a \<notin> screens_seen (after_sleep stuck_button_page (initial_state 0))
   \<and> (case action screen_a of None \<Rightarrow> (None, 1)
       | Some act \<Rightarrow> run_action stuck_button_page act 1) = (None, 3 / 2)
   \<and> button screen_a = Some ''#a-x''
   \<and> wait_for stuck_button_page ''#a-x'' StateVisible 10000 (3 / 2) =
       (Some PlaywrightTimeoutError, 5 / 2)"
    by (simp add: stuck_button_page_def scripted_page_def screen_a_def after_sleep_def
        initial_state_def configure_updates_screen_def then_do_def)
  from button_wait_timeout_swallowed [where P = stuck_button_page and s = screen_a
      and st = "after_sleep stuck_button_page (initial_state 0)" and ?w1.0 = 1
      and ?w2.0 = "3 / 2" and b = "''#a-x''" and e = PlaywrightTimeoutError and ?w3.0 = "5 / 2"
      and rest = "[screen_c]"] h
  have "scan_screens stuck_button_page (screen_a # [screen_c])
      (after_sleep stuck_button_page (initial_state 0)) =
    scan_screens stuck_button_page [screen_c]
      ((after_sleep stuck_button_page (initial_state 0))
         \<lparr>screens_seen := insert (name screen_a)
            (screens_seen (after_sleep stuck_button_page (initial_state 0))),
          screen_found := True, world := 5 / 2,
          trace := trace (after_sleep stuck_button_page (initial_state 0))
            @ [Visible (name screen_a) (Inr True), SeenAdd (name screen_a)]
            @ (case action screen_a of None \<Rightarrow> []
               | Some act \<Rightarrow> [ActionRun (name screen_a) None])
            @ [ButtonWait (name screen_a) (Some PlaywrightTimeoutError)]\<rparr>)"
    by simp
  moreover have "(after_sleep stuck_button_page (initial_state 0))
         \<lparr>screens_seen := insert (name screen_a)
            (screens_seen (after_sleep stuck_button_page (initial_state 0))),
          screen_found := True, world := 5 / 2,
          trace := trace (after_sleep stuck_button_page (initial_state 0))
            @ [Visible (name screen_a) (Inr True), SeenAdd (name screen_a)]
            @ (case action screen_a of None \<Rightarrow> []
               | Some act \<Rightarrow> [ActionRun (name screen_a) None])
            @ [ButtonWait (name screen_a) (Some PlaywrightTimeoutError)]\<rparr> =
     \<lparr>screens_seen = {''A''}, consecutive_no_match = 0, screen_found = True, world = 5 / 2,
      trace = [Visible ''A'' (Inr True), SeenAdd ''A'', ActionRun ''A'' None,
               ButtonWait ''A'' (Some PlaywrightTimeoutError)]\<rparr>"
    by (simp add: after_sleep_def initial_state_def screen_a_def)
  ultimately show ?thesis by simp
qed

theorem button_wait_timeout_swallowed_counterexample:
  "wait_for stuck_button_page ''#a-x'' StateVisible 10000 (3 / 2) =
     (Some PlaywrightTimeoutError, 5 / 2)
   \<and> handle_post_wizard stuck_button_page [screen_a, screen_c] (Suc (Suc 0)) 0 =
    (Some AllHandled,
      \<lparr>screens_seen = {''C'', ''A''}, consecutive_no_match = 0,
       screen_found = True, world = 19 / 2,
       trace =
         [Visible ''A'' (Inr True), SeenAdd ''A'', ActionRun ''A'' None,
          ButtonWait ''A'' (Some PlaywrightTimeoutError),
          Visible ''C'' (Inr True), SeenAdd ''C'', ButtonWait ''C'' None,
          ButtonClick ''C'' None, HiddenWait ''C'' None,
          LoadWait ''C'' None]\<rparr>)"
  using stuck_button_run by (simp add: stuck_button_page_def scripted_page_def)

text \<open>
  Claim C6, as amended. Whether an exception is swallowed depends on its kind, not on where
  it was raised. A Playwright timeout raised by the detection or by any step of handling a
  matched screen is swallowed and the scan goes on with the next entry; after a detection
  that raised, the seen set and the flags are as they were. Any other exception, raised by
  the detection or by the handling, ends the loop at once with the fatal error naming the
  screen.
\<close>

theorem exception_policy:
  "(is_visible P (screen_identifier s) (world st) = (Inl e, w1) \<longrightarrow>
      scan_screens P (s # rest) st =
        (if e = PlaywrightTimeoutError
         then scan_screens P rest
                (st\<lparr>world := w1, trace := trace st @ [Visible (name s) (Inl e)]\<rparr>)
         else (Some (name s), st\<lparr>world := w1, trace := trace st @ [Visible (name s) (Inl e)]\<rparr>)))
   \<and> (try_screen P s st = (Inl e, st') \<longrightarrow>
        scan_screens P (s # rest) st =
          (if e = PlaywrightTimeoutError then scan_screens P rest st'
           else (Some (name s), st')))
   \<and> (\<not> clock P (world sa) - t0 > timeout_seconds
        \<and> screens_seen sa \<noteq> all_screen_names screens
        \<and> scan_screens P screens (after_sleep P sa) = (Some n, sb) \<longrightarrow>
        iteration P screens t0 sa = (Some (FatalError n), sb))"
proof (intro conjI impI)
  assume "is_visible P (screen_identifier s) (world st) = (Inl e, w1)"
  then have "try_screen P s st =
      (Inl e, st\<lparr>world := w1, trace := trace st @ [Visible (name s) (Inl e)]\<rparr>)"
    by (simp add: try_screen_def)
  then show "scan_screens P (s # rest) st =
        (if e = PlaywrightTimeoutError
         then scan_screens P rest
                (st\<lparr>world := w1, trace := trace st @ [Visible (name s) (Inl e)]\<rparr>)
         else (Some (name s), st\<lparr>world := w1, trace := trace st @ [Visible (name s) (Inl e)]\<rparr>))"
    by (cases e) simp_all
next
  assume "try_screen P s st = (Inl e, st')"
  then show "scan_screens P (s # rest) st =
          (if e = PlaywrightTimeoutError then scan_screens P rest st'
           else (Some (name s), st'))"
    by (cases e) simp_all
next
  assume a: "\<not> clock P (world sa) - t0 > timeout_seconds
        \<and> screens_seen sa \<noteq> all_screen_names screens
        \<and> scan_screens P screens (after_sleep P sa) = (Some n, sb)"
  then have "\<not> clock P (world sa) - t0 > timeout_seconds"
    "screens_seen sa \<noteq> all_screen_names screens"
    "scan_screens P screens (after_sleep P sa) = (Some n, sb)" by simp_all
  from iteration_scan [OF this] show "iteration P screens t0 sa = (Some (FatalError n), sb)"
    by simp
qed

theorem exception_policy_witness:
  "scan_screens broken_query_page [screen_a, screen_c]
      (after_sleep broken_query_page (initial_state 0)) =
     (Some ''A'',
      \<lparr>screens_seen = {}, consecutive_no_match = 0, screen_found = False,
       world = 1, trace = [Visible ''A'' (Inl OtherException)]\<rparr>)
   \<and> iteration broken_query_page [screen_a, screen_c] 0 (initial_state 0) =
     (Some (FatalError ''A''),
      \<lparr>screens_seen = {}, consecutive_no_match = 0, screen_found = False,
       world = 1, trace = [Visible ''A'' (Inl OtherException)]\<rparr>)"
proof -
  let ?st0 = "after_sleep broken_query_page (initial_state 0)"
  let ?st1 = "\<lparr>screens_seen = {}, consecutive_no_match = 0, screen_found = False,
       world = 1, trace = [Visible ''A'' (Inl OtherException)]\<rparr> :: real loop_state"
  have vis: "is_visible broken_query_page (screen_identifier screen_a) (world ?st0) =
      (Inl OtherException, 1)"
    by (simp add: broken_query_page_def scripted_page_def screen_a_def after_sleep_def
        initial_state_def)
  have upd: "?st0\<lparr>world := 1, trace := trace ?st0 @ [Visible (name screen_a) (Inl OtherException)]\<rparr>
      = ?st1"
    by (simp add: after_sleep_def initial_state_def screen_a_def)
  have early: "\<not> clock broken_query_page (world (initial_state 0)) - 0 > timeout_seconds"
    by (simp add: broken_query_page_def scripted_page_def initial_state_def timeout_seconds_def)
  have uncovered: "screens_seen (initial_state (0::real)) \<noteq> all_screen_names [screen_a, screen_c]"
    by (simp add: initial_state_def all_screen_names_def)
  note inst = exception_policy [where P = broken_query_page and s = screen_a and st = ?st0
      and e = OtherException and ?w1.0 = 1 and rest = "[screen_c]"
      and sa = "initial_state 0" and ?t0.0 = 0 and screens = "[screen_a, screen_c]"
      and n = "''A''" and sb = ?st1]
  from inst vis upd
  have scan: "scan_screens broken_query_page [screen_a, screen_c] ?st0 = (Some ''A'', ?st1)"
    by (simp add: screen_a_def)
  with inst early uncovered
  have "iteration broken_query_page [screen_a, screen_c] 0 (initial_state 0) =
     (Some (FatalError ''A''), ?st1)"
    by blast
  with scan show ?thesis by simp
qed

theorem exception_policy_counterexample:
  "is_visible broken_query_page (screen_identifier screen_a) 1 = (Inl OtherException, 1)
   \<and> handle_post_wizard broken_query_page [screen_a, screen_c] (Suc 0) 0 =
     (Some (FatalError ''A''),
      \<lparr>screens_seen = {}, consecutive_no_match = 0, screen_found = False,
       world = 1, trace = [Visible ''A'' (Inl OtherException)]\<rparr>)"
  using broken_query_run by (simp add: broken_query_page_def scripted_page_def screen_a_def)

end
